theory Spec2Isabelle
  imports Main "HOL-Library.AList"
begin

section \<open>Components, tables and errors\<close>

text \<open>
  The compiler and the assembler exchange values of the component framework (texts, symbols,
  parsed literals). The framework is an external library; a component is represented here by
  its canonical source text: a label by the label text, a symbol by its text with the leading
  dollar sign, a literal by the literal text.
\<close>

type_synonym component = string

text \<open>
  The exceptions the modules can raise. \<open>TypeError\<close> stands for the JavaScript runtime error
  of calling a method on \<open>undefined\<close>. The payload of an exception (module, message, offending
  node or step) is not modelled.
\<close>

datatype error =
    InvalidOperation nat
  | InvalidName string
  | NoEnclosingLoop
  | TooManyParameters
  | SyntaxError
  | TypeError

text \<open>A JavaScript value handed to the instruction encoder as its operand.\<close>

datatype jsvalue = Undefined | Number nat | Component component

text \<open>
  The framework's \<open>getIndex\<close> of a collection: the 1-based position of the first item equal
  to the argument, 0 when there is none.
\<close>

fun getIndexFrom :: "nat \<Rightarrow> 'a list \<Rightarrow> 'a \<Rightarrow> nat" where
  "getIndexFrom index [] item = 0"
| "getIndexFrom index (c # cs) item =
     (if c = item then Suc index else getIndexFrom (Suc index) cs item)"

definition getIndex :: "'a list \<Rightarrow> 'a \<Rightarrow> nat" where
  "getIndex items item = getIndexFrom 0 items item"

text \<open>
  The attributes of the type context (\<open>$literals\<close>, \<open>$constants\<close>) and of the compilation
  context of one procedure (\<open>$parameters\<close>, \<open>$variables\<close>, \<open>$procedures\<close>, \<open>$addresses\<close>) that
  the builder and the assembling visitor copy into their own fields. A catalog is an
  association list in insertion order.
\<close>

record tables =
  literals :: "component list"
  constants :: "(component \<times> component) list"
  parameters :: "component list"
  variables :: "component list"
  procedures :: "component list"
  addresses :: "(string \<times> nat) list"

section \<open>Instruction types\<close>

text \<open>
  The module \<open>Types.js\<close> (operation and modifier codes, modifier names) is not part of the
  sources at hand. Its constants and functions are the fields of a record that every
  function below takes as its first argument.
\<close>

record types =
  SKIP :: nat
  JUMP :: nat
  PUSH :: nat
  POP :: nat
  LOAD :: nat
  STORE :: nat
  INVOKE :: nat
  EXECUTE :: nat
  HANDLE :: nat
  ON_ANY :: nat
  HANDLER :: nat
  LITERAL :: nat
  CONSTANT :: nat
  PARAMETER :: nat
  WITH_NOTHING :: nat
  jumpModifierString :: "nat \<Rightarrow> string"
  pushModifierString :: "nat \<Rightarrow> string"
  popModifierString :: "nat \<Rightarrow> string"
  loadModifierString :: "nat \<Rightarrow> string"
  storeModifierString :: "nat \<Rightarrow> string"
  executeModifierString :: "nat \<Rightarrow> string"
  handleModifierString :: "nat \<Rightarrow> string"

text \<open>
  A step of a parsed procedure: a catalog with the attributes \<open>$label\<close>, \<open>$operation\<close>,
  \<open>$modifier\<close> and \<open>$operand\<close>, of which only \<open>$operation\<close> is always there.
\<close>

record step =
  label :: "string option"
  operation :: nat
  modifier :: "nat option"
  operand :: "component option"

section \<open>The assembler (Assembler.js)\<close>

text \<open>
  The assembling visitor: the tables of the two contexts and the bytecode assembled so far.
  The encoder \<open>utilities.bytecode.encodeInstruction\<close> is not part of the sources at hand; it
  is the argument \<open>enc\<close>, from operation, modifier and operand to a word of any type.
\<close>

record 'w assembling_visitor = tables +
  bytecode :: "'w list"

type_synonym 'w encoder = "nat \<Rightarrow> nat \<Rightarrow> jsvalue \<Rightarrow> 'w"

definition emit :: "'w assembling_visitor \<Rightarrow> 'w \<Rightarrow> error + 'w assembling_visitor" where
  "emit v word = Inr (v\<lparr>bytecode := bytecode v @ [word]\<rparr>)"

text \<open>\<open>catalog.getValue(key)\<close>: the value stored under the key, \<open>undefined\<close> when there is none.\<close>

definition getValue :: "(string \<times> nat) list \<Rightarrow> string \<Rightarrow> jsvalue" where
  "getValue catalog key = (case map_of catalog key of None \<Rightarrow> Undefined | Some n \<Rightarrow> Number n)"

text \<open>
  The attribute \<open>$operand\<close> of a step is \<open>undefined\<close> when the step has none. The methods
  below hand it to \<open>getValue\<close> and \<open>getIndex\<close> as it is: no key and no item is \<open>undefined\<close>, so
  the look-up finds nothing and the word is appended all the same.
\<close>

definition getValueOf :: "(string \<times> nat) list \<Rightarrow> string option \<Rightarrow> jsvalue" where
  "getValueOf catalog key = (case key of None \<Rightarrow> Undefined | Some k \<Rightarrow> getValue catalog k)"

definition getIndexOf :: "'a list \<Rightarrow> 'a option \<Rightarrow> nat" where
  "getIndexOf items item = (case item of None \<Rightarrow> 0 | Some x \<Rightarrow> getIndex items x)"

definition visitJumpInstruction ::
  "types \<Rightarrow> 'w encoder \<Rightarrow> 'w assembling_visitor \<Rightarrow> step \<Rightarrow> error + 'w assembling_visitor" where
  "visitJumpInstruction T enc v instruction =
     (case modifier instruction of
        None \<Rightarrow> emit v (enc (SKIP T) 0 (Number 0))
      | Some m \<Rightarrow> emit v (enc (JUMP T) m (getValueOf (addresses v) (operand instruction))))"

definition visitPushInstruction ::
  "types \<Rightarrow> 'w encoder \<Rightarrow> 'w assembling_visitor \<Rightarrow> step \<Rightarrow> error + 'w assembling_visitor" where
  "visitPushInstruction T enc v instruction =
     (case modifier instruction of
        None \<Rightarrow> Inl TypeError
      | Some m \<Rightarrow>
          emit v (enc (PUSH T) m
            (if m = HANDLER T then getValueOf (addresses v) (operand instruction)
             else if m = LITERAL T then Number (getIndexOf (literals v) (operand instruction))
             else if m = CONSTANT T then
               Number (getIndexOf (map fst (constants v)) (operand instruction))
             else if m = PARAMETER T then
               Number (getIndexOf (parameters v) (operand instruction))
             else (case operand instruction of None \<Rightarrow> Undefined | Some val \<Rightarrow> Component val))))"

definition visitPopInstruction ::
  "types \<Rightarrow> 'w encoder \<Rightarrow> 'w assembling_visitor \<Rightarrow> step \<Rightarrow> error + 'w assembling_visitor" where
  "visitPopInstruction T enc v instruction =
     (case modifier instruction of
        None \<Rightarrow> Inl TypeError
      | Some m \<Rightarrow> emit v (enc (POP T) m Undefined))"

definition visitLoadInstruction ::
  "types \<Rightarrow> 'w encoder \<Rightarrow> 'w assembling_visitor \<Rightarrow> step \<Rightarrow> error + 'w assembling_visitor" where
  "visitLoadInstruction T enc v instruction =
     (case modifier instruction of
        None \<Rightarrow> Inl TypeError
      | Some m \<Rightarrow>
          emit v (enc (LOAD T) m (Number (getIndexOf (variables v) (operand instruction)))))"

definition visitStoreInstruction ::
  "types \<Rightarrow> 'w encoder \<Rightarrow> 'w assembling_visitor \<Rightarrow> step \<Rightarrow> error + 'w assembling_visitor" where
  "visitStoreInstruction T enc v instruction =
     (case modifier instruction of
        None \<Rightarrow> Inl TypeError
      | Some m \<Rightarrow>
          emit v (enc (STORE T) m (Number (getIndexOf (variables v) (operand instruction)))))"

text \<open>
  \<open>intrinsics.index(name)\<close> of Intrinsics.js: the position of the name in the table of
  names, whose entry 0 is the invalid intrinsic; the exception \<open>$invalidName\<close> when the
  position is below 1. The table of names is the argument \<open>names\<close>.
\<close>

fun indexOf :: "'a list \<Rightarrow> 'a \<Rightarrow> nat option" where
  "indexOf [] x = None"
| "indexOf (y # ys) x = (if y = x then Some 0 else map_option Suc (indexOf ys x))"

definition index :: "string list \<Rightarrow> string \<Rightarrow> error + nat" where
  "index names name =
     (case indexOf names name of
        None \<Rightarrow> Inl (InvalidName name)
      | Some result \<Rightarrow> if result < 1 then Inl (InvalidName name) else Inr result)"

definition visitInvokeInstruction ::
  "types \<Rightarrow> 'w encoder \<Rightarrow> string list \<Rightarrow> 'w assembling_visitor \<Rightarrow> step
    \<Rightarrow> error + 'w assembling_visitor" where
  "visitInvokeInstruction T enc names v instruction =
     (case modifier instruction of
        None \<Rightarrow> Inl TypeError
      | Some count \<Rightarrow>
          (case operand instruction of
             None \<Rightarrow> Inl TypeError
           | Some symbol \<Rightarrow>
               (case index names symbol of
                  Inl e \<Rightarrow> Inl e
                | Inr i \<Rightarrow> emit v (enc (INVOKE T) count (Number i)))))"

definition visitExecuteInstruction ::
  "types \<Rightarrow> 'w encoder \<Rightarrow> 'w assembling_visitor \<Rightarrow> step \<Rightarrow> error + 'w assembling_visitor" where
  "visitExecuteInstruction T enc v instruction =
     (case modifier instruction of
        None \<Rightarrow> Inl TypeError
      | Some m \<Rightarrow>
          emit v (enc (EXECUTE T) m (Number (getIndexOf (procedures v) (operand instruction)))))"

definition visitHandleInstruction ::
  "types \<Rightarrow> 'w encoder \<Rightarrow> 'w assembling_visitor \<Rightarrow> step \<Rightarrow> error + 'w assembling_visitor" where
  "visitHandleInstruction T enc v instruction =
     (case modifier instruction of
        None \<Rightarrow> Inl TypeError
      | Some m \<Rightarrow> emit v (enc (HANDLE T) m Undefined))"

text \<open>
  The dispatch on the operation of a step. The label of the step is not read. The cases of
  the \<open>switch\<close> are tried in the order of the source.
\<close>

definition visitCatalog ::
  "types \<Rightarrow> 'w encoder \<Rightarrow> string list \<Rightarrow> 'w assembling_visitor \<Rightarrow> step
    \<Rightarrow> error + 'w assembling_visitor" where
  "visitCatalog T enc names v s =
     (if operation s = JUMP T then visitJumpInstruction T enc v s
      else if operation s = PUSH T then visitPushInstruction T enc v s
      else if operation s = POP T then visitPopInstruction T enc v s
      else if operation s = LOAD T then visitLoadInstruction T enc v s
      else if operation s = STORE T then visitStoreInstruction T enc v s
      else if operation s = INVOKE T then visitInvokeInstruction T enc names v s
      else if operation s = EXECUTE T then visitExecuteInstruction T enc v s
      else if operation s = HANDLE T then visitHandleInstruction T enc v s
      else Inl (InvalidOperation (operation s)))"

fun visitList ::
  "types \<Rightarrow> 'w encoder \<Rightarrow> string list \<Rightarrow> 'w assembling_visitor \<Rightarrow> step list
    \<Rightarrow> error + 'w assembling_visitor" where
  "visitList T enc names v [] = Inr v"
| "visitList T enc names v (s # instructions) =
     (case visitCatalog T enc names v s of
        Inl e \<Rightarrow> Inl e
      | Inr v' \<Rightarrow> visitList T enc names v' instructions)"

text \<open>
  Modelled from the spec: the codes of \<open>Types.js\<close>, which is not part of the sources at hand,
  in the order of the table of operations and modifiers of section 4.A, with the modifier
  names of the assembly grammar of section 6. SKIP shares the code of JUMP: the assembler has
  no case of its own for it. These values are used at concrete inputs only.
\<close>

definition modifierName :: "string list \<Rightarrow> nat \<Rightarrow> string" where
  "modifierName table m = (if m < length table then table ! m else ''undefined'')"

definition baliTypes :: types where
  "baliTypes = \<lparr>
     SKIP = 0, JUMP = 0, PUSH = 1, POP = 2, LOAD = 3, STORE = 4, INVOKE = 5, EXECUTE = 6,
     HANDLE = 7,
     ON_ANY = 0, HANDLER = 0, LITERAL = 1, CONSTANT = 2, PARAMETER = 3, WITH_NOTHING = 0,
     jumpModifierString = modifierName [''ON ANY'', ''ON NONE'', ''ON TRUE'', ''ON FALSE''],
     pushModifierString = modifierName [''HANDLER'', ''LITERAL'', ''CONSTANT'', ''PARAMETER''],
     popModifierString = modifierName [''HANDLER'', ''COMPONENT''],
     loadModifierString = modifierName [''VARIABLE'', ''MESSAGE'', ''DRAFT'', ''DOCUMENT''],
     storeModifierString = modifierName [''VARIABLE'', ''MESSAGE'', ''DRAFT'', ''DOCUMENT''],
     executeModifierString =
       modifierName [''WITH NOTHING'', ''WITH PARAMETERS'', ''ON TARGET'',
                     ''ON TARGET WITH PARAMETERS''],
     handleModifierString = modifierName [''EXCEPTION'', ''RESULT''] \<rparr>"

text \<open>A symbolic encoder for concrete inputs: the word is the triple of its three fields.\<close>

definition fieldsOf :: "(nat \<times> nat \<times> jsvalue) encoder" where
  "fieldsOf opcode modcode value = (opcode, modcode, value)"

definition emptyVisitor :: "(nat \<times> nat \<times> jsvalue) assembling_visitor" where
  "emptyVisitor = \<lparr> literals = [], constants = [], parameters = [], variables = [],
     procedures = [], addresses = [], bytecode = [] \<rparr>"

section \<open>The formatter (Formatter.js)\<close>

definition EOL :: string where
  "EOL = [CHR 0x0A]"

text \<open>
  The decimal digits of a number. This is what JavaScript appends to a string for an
  integer below \<open>2 ^ 53\<close>. A larger number is a double that JavaScript prints rounded to the
  shortest digits that read back as the same double (\<open>2 ^ 64\<close> as 18446744073709552000),
  and with an exponent from \<open>10 ^ 21\<close> on; that form is not modelled. The counters of the
  builder start at 1 and go up by one, and the statements about a number read from a step
  bound it by \<open>2 ^ 53\<close>.
\<close>

definition digit :: "nat \<Rightarrow> char" where
  "digit d = ''0123456789'' ! d"

fun decimal :: "nat \<Rightarrow> string" where
  "decimal n = (if n < 10 then [digit n] else decimal (n div 10) @ [digit (n mod 10)])"

declare decimal.simps [simp del]

text \<open>
  The formatting visitor: the number of indentation levels and the source text formatted so
  far, which starts as the indentation. The prefix \<open>fmt\<close> tells its methods from the
  methods of the same name of the assembling visitor.
\<close>

definition indent :: "nat \<Rightarrow> string" where
  "indent indentation = concat (replicate indentation ''    '')"

definition appendNewline :: "nat \<Rightarrow> string \<Rightarrow> string" where
  "appendNewline indentation source = source @ EOL @ indent indentation"

definition fmt_visitJumpInstruction :: "types \<Rightarrow> string \<Rightarrow> step \<Rightarrow> error + string" where
  "fmt_visitJumpInstruction T source instruction =
     (case modifier instruction of
        None \<Rightarrow> Inr (source @ ''SKIP INSTRUCTION'')
      | Some m \<Rightarrow>
          (case operand instruction of
             None \<Rightarrow> Inl TypeError
           | Some target \<Rightarrow>
               Inr (source @ ''JUMP TO '' @ target
                    @ (if m \<noteq> ON_ANY T then '' '' @ jumpModifierString T m else []))))"

text \<open>
  A literal operand is printed by the formatter of the component framework, between back
  ticks; here it is its canonical text. An operand that is missing where the source appends
  it to the string is printed as \<open>undefined\<close>.
\<close>

definition fmt_visitPushInstruction :: "types \<Rightarrow> string \<Rightarrow> step \<Rightarrow> error + string" where
  "fmt_visitPushInstruction T source instruction =
     (case modifier instruction of
        None \<Rightarrow> Inl TypeError
      | Some m \<Rightarrow>
          (let source' = source @ ''PUSH '' @ pushModifierString T m @ '' '' in
           if m = HANDLER T then
             (case operand instruction of
                None \<Rightarrow> Inl TypeError
              | Some target \<Rightarrow> Inr (source' @ target))
           else if m = LITERAL T then
             (case operand instruction of
                None \<Rightarrow> Inl TypeError
              | Some literal \<Rightarrow> Inr (source' @ ''`'' @ literal @ ''`''))
           else
             Inr (source' @ (case operand instruction of
                               None \<Rightarrow> ''undefined'' | Some symbol \<Rightarrow> symbol))))"

definition fmt_visitPopInstruction :: "types \<Rightarrow> string \<Rightarrow> step \<Rightarrow> error + string" where
  "fmt_visitPopInstruction T source instruction =
     (case modifier instruction of
        None \<Rightarrow> Inl TypeError
      | Some m \<Rightarrow> Inr (source @ ''POP '' @ popModifierString T m))"

definition fmt_visitLoadInstruction :: "types \<Rightarrow> string \<Rightarrow> step \<Rightarrow> error + string" where
  "fmt_visitLoadInstruction T source instruction =
     (case modifier instruction of
        None \<Rightarrow> Inl TypeError
      | Some m \<Rightarrow>
          (case operand instruction of
             None \<Rightarrow> Inl TypeError
           | Some symbol \<Rightarrow> Inr (source @ ''LOAD '' @ loadModifierString T m @ '' '' @ symbol)))"

definition fmt_visitStoreInstruction :: "types \<Rightarrow> string \<Rightarrow> step \<Rightarrow> error + string" where
  "fmt_visitStoreInstruction T source instruction =
     (case modifier instruction of
        None \<Rightarrow> Inl TypeError
      | Some m \<Rightarrow>
          (case operand instruction of
             None \<Rightarrow> Inl TypeError
           | Some symbol \<Rightarrow> Inr (source @ ''STORE '' @ storeModifierString T m @ '' '' @ symbol)))"

definition fmt_visitInvokeInstruction :: "types \<Rightarrow> string \<Rightarrow> step \<Rightarrow> error + string" where
  "fmt_visitInvokeInstruction T source instruction =
     (let source' = source @ ''INVOKE ''
            @ (case operand instruction of None \<Rightarrow> ''undefined'' | Some symbol \<Rightarrow> symbol) in
      case modifier instruction of
        None \<Rightarrow> Inl TypeError
      | Some m \<Rightarrow>
          Inr (if m > 0 then
                 source' @ '' WITH ''
                   @ (if m > 1 then decimal m @ '' PARAMETERS'' else ''PARAMETER'')
               else source'))"

definition fmt_visitExecuteInstruction :: "types \<Rightarrow> string \<Rightarrow> step \<Rightarrow> error + string" where
  "fmt_visitExecuteInstruction T source instruction =
     (let source' = source @ ''EXECUTE ''
            @ (case operand instruction of None \<Rightarrow> ''undefined'' | Some symbol \<Rightarrow> symbol) in
      case modifier instruction of
        None \<Rightarrow> Inl TypeError
      | Some m \<Rightarrow>
          Inr (if m \<noteq> WITH_NOTHING T then source' @ '' '' @ executeModifierString T m
               else source'))"

definition fmt_visitHandleInstruction :: "types \<Rightarrow> string \<Rightarrow> step \<Rightarrow> error + string" where
  "fmt_visitHandleInstruction T source instruction =
     (case modifier instruction of
        None \<Rightarrow> Inl TypeError
      | Some m \<Rightarrow> Inr (source @ ''HANDLE '' @ handleModifierString T m))"

text \<open>
  A step: its label, on a line of its own and after a blank line unless nothing but the
  indentation has been written yet; then the instruction. The first lines of \<open>visitCatalog\<close>,
  which write the label, are \<open>fmt_label\<close>; the \<open>switch\<close> on the operation follows.
\<close>

definition fmt_label :: "nat \<Rightarrow> string \<Rightarrow> step \<Rightarrow> string" where
  "fmt_label indentation source s =
     (case label s of
        None \<Rightarrow> source
      | Some l \<Rightarrow>
          appendNewline indentation
            ((if length source > 4 * indentation then appendNewline indentation source
              else source) @ l @ '':''))"

definition fmt_visitCatalog :: "types \<Rightarrow> nat \<Rightarrow> string \<Rightarrow> step \<Rightarrow> error + string" where
  "fmt_visitCatalog T indentation source s =
     (let source' = fmt_label indentation source s
      in
      if operation s = JUMP T then fmt_visitJumpInstruction T source' s
      else if operation s = PUSH T then fmt_visitPushInstruction T source' s
      else if operation s = POP T then fmt_visitPopInstruction T source' s
      else if operation s = LOAD T then fmt_visitLoadInstruction T source' s
      else if operation s = STORE T then fmt_visitStoreInstruction T source' s
      else if operation s = INVOKE T then fmt_visitInvokeInstruction T source' s
      else if operation s = EXECUTE T then fmt_visitExecuteInstruction T source' s
      else if operation s = HANDLE T then fmt_visitHandleInstruction T source' s
      else Inl (InvalidOperation (operation s)))"

fun fmt_steps :: "types \<Rightarrow> nat \<Rightarrow> string \<Rightarrow> step list \<Rightarrow> error + string" where
  "fmt_steps T indentation source [] = Inr source"
| "fmt_steps T indentation source (s # procedure) =
     (case fmt_visitCatalog T indentation (appendNewline indentation source) s of
        Inl e \<Rightarrow> Inl e
      | Inr source' \<Rightarrow> fmt_steps T indentation source' procedure)"

text \<open>
  The list of steps: the first step, then each further step after a newline. The first step
  of an empty list is \<open>undefined\<close>, and visiting it fails.
\<close>

definition fmt_visitList :: "types \<Rightarrow> nat \<Rightarrow> string \<Rightarrow> step list \<Rightarrow> error + string" where
  "fmt_visitList T indentation source procedure =
     (case procedure of
        [] \<Rightarrow> Inl TypeError
      | s # rest \<Rightarrow>
          (case fmt_visitCatalog T indentation source s of
             Inl e \<Rightarrow> Inl e
           | Inr source' \<Rightarrow> fmt_steps T indentation source' rest))"

definition formatInstructions :: "types \<Rightarrow> nat \<Rightarrow> step list \<Rightarrow> error + string" where
  "formatInstructions T indentation instructions =
     fmt_visitList T indentation (indent indentation) instructions"

section \<open>The syntax tree\<close>

text \<open>
  The compiler walks a syntax tree built by the parser of the component framework, which is
  an external library. A tree node has a type, an operator or identifier text where its
  kind has one, and its children. Elements, collections, ranges, associations, parameters
  and source code are components of their own kind. A source component carries the text of
  its procedure as the framework prints it.
\<close>

datatype tree_type =
    ArithmeticExpression | Block | BreakClause | CheckoutClause | CommitClause
  | ComparisonExpression | ComplementExpression | ConcatenationExpression | ContinueClause
  | DefaultExpression | DereferenceExpression | DiscardClause | EvaluateClause
  | ExponentialExpression | FactorialExpression | Function | FunctionExpression
  | HandleClause | IfClause | Indices | InversionExpression | LogicalExpression
  | MagnitudeExpression | Message | MessageExpression | Procedure | PublishClause
  | QueueClause | ReturnClause | SaveClause | SelectClause | Statement
  | SubcomponentExpression | ThrowClause | Variable | WaitClause | WhileClause | WithClause

datatype element_type =
    ANGLE | BINARY | DURATION | MOMENT | NUMBER | PERCENT | PROBABILITY | REFERENCE
  | SYMBOL | TAG | TEMPLATE | TEXT | VERSION

datatype collection_type = Catalog | List | Queue | Set | Stack

datatype node =
    Tree tree_type string "node list"
  | Element element_type string "node option"
  | Collection collection_type "node option" "node list"
  | Range node node "node option"
  | Association node node
  | Parameters node
  | Source string node "node option"

datatype type_id =
    TREE tree_type | ELEMENT element_type | COLLECTION collection_type
  | RANGE | ASSOCIATION | PARAMETERS | SOURCE

fun getTypeId :: "node \<Rightarrow> type_id" where
  "getTypeId (Tree t _ _) = TREE t"
| "getTypeId (Element t _ _) = ELEMENT t"
| "getTypeId (Collection t _ _) = COLLECTION t"
| "getTypeId (Range _ _ _) = RANGE"
| "getTypeId (Association _ _) = ASSOCIATION"
| "getTypeId (Parameters _) = PARAMETERS"
| "getTypeId (Source _ _ _) = SOURCE"

text \<open>The text of an identifier tree (variable, function, message) or of an element.\<close>

fun toString :: "node \<Rightarrow> string" where
  "toString (Tree _ text _) = text"
| "toString (Element _ text _) = text"
| "toString (Source text _ _) = ''{'' @ text @ ''}''"
| "toString _ = []"

text \<open>The items that the iterator of a node runs over, and their number.\<close>

fun getItems :: "node \<Rightarrow> node list" where
  "getItems (Tree _ _ children) = children"
| "getItems (Collection _ _ items) = items"
| "getItems (Parameters collection) = getItems collection"
| "getItems _ = []"

definition getSize :: "node \<Rightarrow> nat" where
  "getSize n = length (getItems n)"

text \<open>
  \<open>getChild(index)\<close>: children are counted from 1, a negative index counts from the end, and
  there is no child outside this range.
\<close>

definition getChild :: "'a list \<Rightarrow> int \<Rightarrow> 'a option" where
  "getChild children i =
     (let n = int (length children); j = (if i < 0 then n + i + 1 else i)
      in if 1 \<le> j \<and> j \<le> n then Some (children ! nat (j - 1)) else None)"

fun getKey :: "node \<Rightarrow> node" where
  "getKey (Association key _) = key"
| "getKey n = n"

text \<open>The value of an association among the arguments of a function; any other argument itself.\<close>

fun argument :: "node \<Rightarrow> node" where
  "argument (Association _ val) = val"
| "argument n = n"

text \<open>\<open>bali.types.symbolForType\<close> on the type of a tree: a dollar sign and the name of the type.\<close>

fun typeName :: "tree_type \<Rightarrow> string" where
  "typeName ArithmeticExpression = ''ArithmeticExpression''"
| "typeName Block = ''Block''"
| "typeName BreakClause = ''BreakClause''"
| "typeName CheckoutClause = ''CheckoutClause''"
| "typeName CommitClause = ''CommitClause''"
| "typeName ComparisonExpression = ''ComparisonExpression''"
| "typeName ComplementExpression = ''ComplementExpression''"
| "typeName ConcatenationExpression = ''ConcatenationExpression''"
| "typeName ContinueClause = ''ContinueClause''"
| "typeName DefaultExpression = ''DefaultExpression''"
| "typeName DereferenceExpression = ''DereferenceExpression''"
| "typeName DiscardClause = ''DiscardClause''"
| "typeName EvaluateClause = ''EvaluateClause''"
| "typeName ExponentialExpression = ''ExponentialExpression''"
| "typeName FactorialExpression = ''FactorialExpression''"
| "typeName Function = ''Function''"
| "typeName FunctionExpression = ''FunctionExpression''"
| "typeName HandleClause = ''HandleClause''"
| "typeName IfClause = ''IfClause''"
| "typeName Indices = ''Indices''"
| "typeName InversionExpression = ''InversionExpression''"
| "typeName LogicalExpression = ''LogicalExpression''"
| "typeName MagnitudeExpression = ''MagnitudeExpression''"
| "typeName Message = ''Message''"
| "typeName MessageExpression = ''MessageExpression''"
| "typeName Procedure = ''Procedure''"
| "typeName PublishClause = ''PublishClause''"
| "typeName QueueClause = ''QueueClause''"
| "typeName ReturnClause = ''ReturnClause''"
| "typeName SaveClause = ''SaveClause''"
| "typeName SelectClause = ''SelectClause''"
| "typeName Statement = ''Statement''"
| "typeName SubcomponentExpression = ''SubcomponentExpression''"
| "typeName ThrowClause = ''ThrowClause''"
| "typeName Variable = ''Variable''"
| "typeName WaitClause = ''WaitClause''"
| "typeName WhileClause = ''WhileClause''"
| "typeName WithClause = ''WithClause''"

fun symbolForType :: "type_id \<Rightarrow> string" where
  "symbolForType (TREE t) = ''$'' @ typeName t"
| "symbolForType (ELEMENT _) = ''$Element''"
| "symbolForType (COLLECTION Catalog) = ''$Catalog''"
| "symbolForType (COLLECTION List) = ''$List''"
| "symbolForType (COLLECTION Queue) = ''$Queue''"
| "symbolForType (COLLECTION Set) = ''$Set''"
| "symbolForType (COLLECTION Stack) = ''$Stack''"
| "symbolForType RANGE = ''$Range''"
| "symbolForType ASSOCIATION = ''$Association''"
| "symbolForType PARAMETERS = ''$Parameters''"
| "symbolForType SOURCE = ''$Source''"

text \<open>\<open>string.slice(1, -6)\<close>: without the first character and without the last six.\<close>

definition slice_1_6 :: "string \<Rightarrow> string" where
  "slice_1_6 s = take (length s - 7) (drop 1 s)"

section \<open>The instruction builder (Compiler.js)\<close>

text \<open>
  The context of the statement being compiled and the context of a procedure block. The
  labels that \<open>pushStatementContext\<close> does not set are \<open>undefined\<close>.
\<close>

record statement_context =
  mainClause :: node
  subClauses :: "node list"
  handleClauses :: "node list"
  clauseCount :: nat
  clauseNumber :: nat
  startLabel :: string
  doneLabel :: "string option"
  handlerLabel :: "string option"
  failureLabel :: "string option"
  successLabel :: "string option"
  loopLabel :: "string option"

record procedure_context =
  statementNumber :: nat
  statementCount :: nat
  prefix :: string
  statement :: "statement_context option"

text \<open>
  The state of a compilation: the tables, the fields of the instruction builder and the
  counter of temporary variables of the compiling visitor. The stack of procedure contexts
  is kept with its top first: \<open>stack.peek()\<close> is the head of the list, and the entry
  \<open>procedures[numberOfProcedures - i - 1]\<close> of the source is the entry \<open>i\<close> of the list. The
  builder does not initialise \<open>nextLabel\<close> and \<open>requiresFinalization\<close>: they start as
  \<open>undefined\<close>.
\<close>

record compiler = tables +
  address :: nat
  stack :: "procedure_context list"
  asmcode :: string
  nextLabel :: "string option"
  requiresFinalization :: "bool option"
  temporaryVariableCount :: nat

text \<open>A string that may be \<open>undefined\<close>: its truth value in a condition, and its text
  when it is appended to a string.\<close>

definition truthy :: "string option \<Rightarrow> bool" where
  "truthy x = (case x of None \<Rightarrow> False | Some l \<Rightarrow> l \<noteq> [])"

definition str :: "string option \<Rightarrow> string" where
  "str x = (case x of None \<Rightarrow> ''undefined'' | Some l \<Rightarrow> l)"

text \<open>
  Modelled from the spec: the sets of the two contexts (\<open>$literals\<close>, \<open>$variables\<close>,
  \<open>$procedures\<close>) are objects of the component framework, an external library that is not
  among the sources. Section 4.B describes each table as an ordered set whose insertion is
  idempotent, and section 3 gives the variables in the order of their first mention:
  \<open>addItem\<close> appends an item that is not there yet. How the framework itself orders and
  compares the items of a set is not modelled, and no statement below depends on the order
  of the items of a table that the builder has filled.
\<close>

definition addItem :: "'a list \<Rightarrow> 'a \<Rightarrow> 'a list" where
  "addItem items item = (if item \<in> set items then items else items @ [item])"

definition insertInstruction :: "string \<Rightarrow> compiler \<Rightarrow> compiler" where
  "insertInstruction instruction b =
     (let b' =
        (if truthy (nextLabel b) then
           b\<lparr>addresses := AList.update (str (nextLabel b)) (address b) (addresses b),
             asmcode := (if asmcode b \<noteq> [] then asmcode b @ EOL else asmcode b)
                        @ str (nextLabel b) @ '':'' @ EOL,
             nextLabel := None\<rparr>
         else b)
      in b'\<lparr>asmcode := asmcode b' @ instruction @ EOL, address := address b' + 1\<rparr>)"

definition insertSkipInstruction :: "compiler \<Rightarrow> compiler" where
  "insertSkipInstruction b = insertInstruction ''SKIP INSTRUCTION'' b"

definition insertLabel :: "string option \<Rightarrow> compiler \<Rightarrow> compiler" where
  "insertLabel l b =
     (if truthy (nextLabel b) then insertSkipInstruction b else b)\<lparr>nextLabel := l\<rparr>"

definition insertJumpInstruction :: "string option \<Rightarrow> string option \<Rightarrow> compiler \<Rightarrow> compiler" where
  "insertJumpInstruction l context b =
     insertInstruction
       (''JUMP TO '' @ str l @ (if truthy context then '' '' @ str context else [])) b"

text \<open>
  The literal of a PUSH LITERAL is parsed by the component framework and added to the
  literals unless the set contains it. Modelled from the spec: section 4.B has the literals
  canonicalised by their parsed value; the parsed literal is represented by its text, so two
  literals are the same here when their texts are (which literals the framework takes for
  equal is not modelled).
\<close>

definition insertPushInstruction :: "string \<Rightarrow> string \<Rightarrow> compiler \<Rightarrow> compiler" where
  "insertPushInstruction type val b =
     (if type = ''HANDLER'' then insertInstruction (''PUSH '' @ type @ '' '' @ val) b
      else if type = ''LITERAL'' then
        insertInstruction (''PUSH '' @ type @ '' '' @ ''`'' @ val @ ''`'')
          (if val \<in> set (literals b) then b else b\<lparr>literals := literals b @ [val]\<rparr>)
      else if type = ''CONSTANT'' then insertInstruction (''PUSH '' @ type @ '' '' @ val) b
      else if type = ''PARAMETER'' then insertInstruction (''PUSH '' @ type @ '' '' @ val) b
      else insertInstruction (''PUSH '' @ type @ '' '') b)"

definition insertPopInstruction :: "string \<Rightarrow> compiler \<Rightarrow> compiler" where
  "insertPopInstruction type b = insertInstruction (''POP '' @ type) b"

definition insertLoadInstruction :: "string \<Rightarrow> string \<Rightarrow> compiler \<Rightarrow> compiler" where
  "insertLoadInstruction type symbol b =
     (let b' = insertInstruction (''LOAD '' @ type @ '' '' @ symbol) b
      in b'\<lparr>variables := addItem (variables b') symbol\<rparr>)"

definition insertStoreInstruction :: "string \<Rightarrow> string \<Rightarrow> compiler \<Rightarrow> compiler" where
  "insertStoreInstruction type symbol b =
     (let b' = insertInstruction (''STORE '' @ type @ '' '' @ symbol) b
      in b'\<lparr>variables := addItem (variables b') symbol\<rparr>)"

definition insertInvokeInstruction :: "string \<Rightarrow> nat \<Rightarrow> compiler \<Rightarrow> compiler" where
  "insertInvokeInstruction intrinsic numberOfParameters b =
     insertInstruction
       (''INVOKE '' @ intrinsic @
          (if numberOfParameters = 0 then []
           else if numberOfParameters = 1 then '' WITH PARAMETER''
           else '' WITH '' @ decimal numberOfParameters @ '' PARAMETERS'')) b"

definition insertExecuteInstruction :: "string \<Rightarrow> string option \<Rightarrow> compiler \<Rightarrow> compiler" where
  "insertExecuteInstruction procedure context b =
     (let b' = insertInstruction
                 (''EXECUTE '' @ procedure
                    @ (if truthy context then '' '' @ str context else [])) b
      in b'\<lparr>procedures := addItem (procedures b') procedure\<rparr>)"

definition insertHandleInstruction :: "string \<Rightarrow> compiler \<Rightarrow> compiler" where
  "insertHandleInstruction context b = insertInstruction (''HANDLE '' @ context) b"

definition finalize :: "compiler \<Rightarrow> compiler" where
  "finalize b = insertHandleInstruction ''RESULT'' (insertLoadInstruction ''VARIABLE'' ''$$result'' b)"

text \<open>
  The procedure contexts. Reading a field of the top of an empty stack, or of the statement
  of a context that has none, is a type error.
\<close>

definition pushProcedureContext :: "nat \<Rightarrow> compiler \<Rightarrow> error + compiler" where
  "pushProcedureContext count b =
     (case stack b of
        [] \<Rightarrow>
          Inr (b\<lparr>stack := [\<lparr>statementNumber = 1, statementCount = count, prefix = [],
                             statement = None\<rparr>]\<rparr>)
      | parent # rest \<Rightarrow>
          (case statement parent of
             None \<Rightarrow> Inl TypeError
           | Some st \<Rightarrow>
               Inr (b\<lparr>stack :=
                   \<lparr>statementNumber = 1, statementCount = count,
                    prefix = prefix parent @ decimal (statementNumber parent) @ ''.''
                             @ decimal (clauseNumber st) @ ''.'',
                    statement = None\<rparr>
                   # parent\<lparr>statement := Some (st\<lparr>clauseNumber := clauseNumber st + 1\<rparr>)\<rparr>
                   # rest\<rparr>)))"

definition popProcedureContext :: "compiler \<Rightarrow> compiler" where
  "popProcedureContext b = b\<lparr>stack := tl (stack b)\<rparr>"

text \<open>The subclauses of a main clause: its children that are blocks.\<close>

definition getSubclauses :: "node \<Rightarrow> node list" where
  "getSubclauses clause = filter (\<lambda>item. getTypeId item = TREE Block) (getItems clause)"

definition pushStatementContext :: "node list \<Rightarrow> compiler \<Rightarrow> error + compiler" where
  "pushStatementContext children b =
     (case getChild children 1 of
        None \<Rightarrow> Inl TypeError
      | Some main \<Rightarrow>
          (case stack b of
             [] \<Rightarrow> Inl TypeError
           | procedure # rest \<Rightarrow>
               (let subs = getSubclauses main;
                    handles = drop 1 children;
                    count = length subs + length handles;
                    type = slice_1_6 (symbolForType (getTypeId main));
                    pre = prefix procedure @ decimal (statementNumber procedure) @ ''.''
                in Inr (b\<lparr>stack :=
                     procedure\<lparr>statement := Some
                       \<lparr>mainClause = main, subClauses = subs, handleClauses = handles,
                        clauseCount = count, clauseNumber = 1,
                        startLabel = pre @ type @ ''Statement'',
                        doneLabel =
                          (if count > 0 then Some (pre @ type @ ''StatementDone'') else None),
                        handlerLabel =
                          (if length handles > 0 then Some (pre @ type @ ''StatementHandlers'')
                           else None),
                        failureLabel =
                          (if length handles > 0 then Some (pre @ type @ ''StatementFailed'')
                           else None),
                        successLabel =
                          (if length handles > 0 then Some (pre @ type @ ''StatementSucceeded'')
                           else None),
                        loopLabel = None\<rparr>\<rparr> # rest\<rparr>))))"

definition popStatementContext :: "compiler \<Rightarrow> error + compiler" where
  "popStatementContext b =
     (case stack b of
        [] \<Rightarrow> Inl TypeError
      | procedure # rest \<Rightarrow> Inr (b\<lparr>stack := procedure\<lparr>statement := None\<rparr> # rest\<rparr>))"

definition getStatementContext :: "compiler \<Rightarrow> error + statement_context" where
  "getStatementContext b =
     (case stack b of
        [] \<Rightarrow> Inl TypeError
      | procedure # rest \<Rightarrow>
          (case statement procedure of None \<Rightarrow> Inl TypeError | Some st \<Rightarrow> Inr st))"

definition hasClauses :: "compiler \<Rightarrow> error + bool" where
  "hasClauses b =
     (case getStatementContext b of Inl e \<Rightarrow> Inl e | Inr st \<Rightarrow> Inr (clauseCount st > 0))"

definition hasHandlers :: "compiler \<Rightarrow> error + bool" where
  "hasHandlers b =
     (case getStatementContext b of
        Inl e \<Rightarrow> Inl e
      | Inr st \<Rightarrow> Inr (length (handleClauses st) > 0))"

definition incrementStatementCount :: "compiler \<Rightarrow> error + compiler" where
  "incrementStatementCount b =
     (case stack b of
        [] \<Rightarrow> Inl TypeError
      | procedure # rest \<Rightarrow>
          Inr (b\<lparr>stack :=
                 procedure\<lparr>statementNumber := statementNumber procedure + 1\<rparr> # rest\<rparr>))"

definition getStatementPrefix :: "compiler \<Rightarrow> error + string" where
  "getStatementPrefix b =
     (case stack b of
        [] \<Rightarrow> Inl TypeError
      | procedure # rest \<Rightarrow>
          Inr (prefix procedure @ decimal (statementNumber procedure) @ ''.''))"

definition getClausePrefix :: "compiler \<Rightarrow> error + string" where
  "getClausePrefix b =
     (case stack b of
        [] \<Rightarrow> Inl TypeError
      | procedure # rest \<Rightarrow>
          (case statement procedure of
             None \<Rightarrow> Inl TypeError
           | Some st \<Rightarrow>
               Inr (prefix procedure @ decimal (statementNumber procedure) @ ''.''
                    @ decimal (clauseNumber st) @ ''.'')))"

definition getNextClausePrefix :: "compiler \<Rightarrow> error + string" where
  "getNextClausePrefix b =
     (case stack b of
        [] \<Rightarrow> Inl TypeError
      | procedure # rest \<Rightarrow>
          (case statement procedure of
             None \<Rightarrow> Inl TypeError
           | Some st \<Rightarrow>
               Inr (prefix procedure @ decimal (statementNumber procedure) @ ''.''
                    @ decimal (clauseNumber st + 1) @ ''.'')))"

text \<open>The assignment \<open>statement.loopLabel = label\<close> to the statement of the top context.\<close>

definition setLoopLabel :: "string \<Rightarrow> compiler \<Rightarrow> error + compiler" where
  "setLoopLabel l b =
     (case stack b of
        [] \<Rightarrow> Inl TypeError
      | procedure # rest \<Rightarrow>
          (case statement procedure of
             None \<Rightarrow> Inl TypeError
           | Some st \<Rightarrow>
               Inr (b\<lparr>stack :=
                      procedure\<lparr>statement := Some (st\<lparr>loopLabel := Some l\<rparr>)\<rparr> # rest\<rparr>)))"

section \<open>Break and continue\<close>

text \<open>
  The search of \<open>visitBreakClause\<close> and \<open>visitContinueClause\<close>: the loop over the procedure
  contexts from the innermost outwards, with the index \<open>i\<close> of the source.
\<close>

function breakLoop :: "nat \<Rightarrow> compiler \<Rightarrow> error + compiler" where
  "breakLoop i b =
     (if i < length (stack b) then
        (case statement (stack b ! i) of
           None \<Rightarrow> Inl TypeError
         | Some st \<Rightarrow>
             if truthy (loopLabel st) then Inr (insertJumpInstruction (doneLabel st) None b)
             else breakLoop (Suc i) b)
      else Inl NoEnclosingLoop)"
  by pat_completeness auto
termination
  by (relation "measure (\<lambda>(i, b). length (stack b) - i)") auto

function continueLoop :: "nat \<Rightarrow> compiler \<Rightarrow> error + compiler" where
  "continueLoop i b =
     (if i < length (stack b) then
        (case statement (stack b ! i) of
           None \<Rightarrow> Inl TypeError
         | Some st \<Rightarrow>
             if truthy (loopLabel st) then Inr (insertJumpInstruction (loopLabel st) None b)
             else continueLoop (Suc i) b)
      else Inl NoEnclosingLoop)"
  by pat_completeness auto
termination
  by (relation "measure (\<lambda>(i, b). length (stack b) - i)") auto

declare breakLoop.simps [simp del] continueLoop.simps [simp del]

definition visitBreakClause :: "compiler \<Rightarrow> error + compiler" where
  "visitBreakClause b = breakLoop 0 b"

definition visitContinueClause :: "compiler \<Rightarrow> error + compiler" where
  "visitContinueClause b = continueLoop 0 b"

section \<open>The parameters of a procedure\<close>

text \<open>
  The loop of \<open>compileProcedure\<close> over the parameters of the source: the key of an
  association, any other parameter as it is, added at the end of the list.
\<close>

fun parameterLoop :: "node list \<Rightarrow> node list \<Rightarrow> node list" where
  "parameterLoop ps [] = ps"
| "parameterLoop ps (parameter # rest) =
     parameterLoop
       (ps @ [if getTypeId parameter = ASSOCIATION then getKey parameter else parameter]) rest"

definition extractParameters :: "node \<Rightarrow> node list" where
  "extractParameters source =
     (case source of
        Source _ _ (Some ps) \<Rightarrow> parameterLoop [] (getItems ps)
      | _ \<Rightarrow> [])"

section \<open>Notions of the specification\<close>

text \<open>
  The words of the specification about break and continue: the nearest statement with a loop
  label, searching the procedure contexts from the innermost outwards.
\<close>

definition isLoop :: "procedure_context \<Rightarrow> bool" where
  "isLoop p = (case statement p of None \<Rightarrow> False | Some st \<Rightarrow> truthy (loopLabel st))"

definition enclosingLoop :: "compiler \<Rightarrow> statement_context option" where
  "enclosingLoop b = (case find isLoop (stack b) of None \<Rightarrow> None | Some p \<Rightarrow> statement p)"

text \<open>The parameter that the specification keeps of a declared parameter.\<close>

definition declaredName :: "node \<Rightarrow> node" where
  "declaredName p = (case p of Association key val \<Rightarrow> key | _ \<Rightarrow> p)"

text \<open>A builder as \<open>new InstructionBuilder\<close> leaves it, for concrete inputs.\<close>

definition newCompiler :: "component list \<Rightarrow> compiler" where
  "newCompiler ps =
     \<lparr> literals = [], constants = [], parameters = ps, variables = [''$target''],
       procedures = [], addresses = [], address = 1, stack = [], asmcode = [],
       nextLabel = None, requiresFinalization = None, temporaryVariableCount = 1 \<rparr>"

text \<open>
  Concrete builder states: the statement context of a clause with given labels, a builder
  inside the block of a while statement, and a builder in a top-level statement.
\<close>

definition exampleStatement ::
  "tree_type \<Rightarrow> string \<Rightarrow> string option \<Rightarrow> string option \<Rightarrow> statement_context" where
  "exampleStatement t start done loop =
     \<lparr> mainClause = Tree t [] [], subClauses = [], handleClauses = [],
       clauseCount = (if done = None then 0 else 1), clauseNumber = 1, startLabel = start,
       doneLabel = done, handlerLabel = None, failureLabel = None, successLabel = None,
       loopLabel = loop \<rparr>"

definition exampleInLoop :: compiler where
  "exampleInLoop =
     (newCompiler [])\<lparr> stack :=
       [\<lparr> statementNumber = 1, statementCount = 1, prefix = ''1.1.'',
          statement = Some (exampleStatement BreakClause ''1.1.1.BreakStatement'' None None) \<rparr>,
        \<lparr> statementNumber = 1, statementCount = 1, prefix = [],
          statement = Some (exampleStatement WhileClause ''1.WhileStatement''
                              (Some ''1.WhileStatementDone'') (Some ''1.1.ConditionClause'')) \<rparr>] \<rparr>"

definition exampleNoLoop :: compiler where
  "exampleNoLoop =
     (newCompiler [])\<lparr> stack :=
       [\<lparr> statementNumber = 1, statementCount = 1, prefix = [],
          statement = Some (exampleStatement BreakClause ''1.BreakStatement'' None None) \<rparr>] \<rparr>"

section \<open>The compiling visitor (Compiler.js)\<close>

text \<open>
  A method of the visitor takes the state of the compilation and gives the new state or the
  exception that ends the compilation. The call \<open>child.acceptVisitor(this)\<close> on the child
  \<open>i\<close> of a tree is the entry \<open>i\<close> of the list of the visitors of the children; it is a type
  error when the tree has no such child.
\<close>

type_synonym visitor = "compiler \<Rightarrow> error + compiler"

definition throw :: "error \<Rightarrow> visitor" where
  "throw e b = Inl e"

definition run :: "(compiler \<Rightarrow> compiler) \<Rightarrow> visitor" where
  "run f b = Inr (f b)"

fun seq :: "visitor list \<Rightarrow> visitor" where
  "seq [] b = Inr b"
| "seq (v # vs) b = (case v b of Inl e \<Rightarrow> Inl e | Inr b' \<Rightarrow> seq vs b')"

definition reading :: "(compiler \<Rightarrow> error + 'a) \<Rightarrow> ('a \<Rightarrow> visitor) \<Rightarrow> visitor" where
  "reading f k b = (case f b of Inl e \<Rightarrow> Inl e | Inr x \<Rightarrow> k x b)"

definition accept :: "visitor list \<Rightarrow> int \<Rightarrow> visitor" where
  "accept vs i = (case getChild vs i of None \<Rightarrow> throw TypeError | Some v \<Rightarrow> v)"

text \<open>\<open>createTemporaryVariable(name)\<close>, with the code that uses the new variable.\<close>

definition createTemporaryVariable :: "string \<Rightarrow> (string \<Rightarrow> visitor) \<Rightarrow> visitor" where
  "createTemporaryVariable name k b =
     k (''$$'' @ name @ ''-'' @ decimal (temporaryVariableCount b))
       (b\<lparr>temporaryVariableCount := temporaryVariableCount b + 1\<rparr>)"

definition setRequiresFinalization :: "bool \<Rightarrow> compiler \<Rightarrow> compiler" where
  "setRequiresFinalization flag b = b\<lparr>requiresFinalization := Some flag\<rparr>"

definition setRecipient :: "node option \<Rightarrow> visitor" where
  "setRecipient recipient =
     (case recipient of
        None \<Rightarrow> throw TypeError
      | Some r \<Rightarrow>
          if getTypeId r = ELEMENT SYMBOL then
            run (insertStoreInstruction ''VARIABLE'' (toString r))
          else
            createTemporaryVariable ''index'' (\<lambda>index. seq
              [run (insertStoreInstruction ''VARIABLE'' index),
               run (insertInvokeInstruction ''$list'' 0),
               run (insertLoadInstruction ''VARIABLE'' index),
               run (insertInvokeInstruction ''$addItem'' 2),
               run (insertInvokeInstruction ''$parameters'' 1),
               run (insertExecuteInstruction ''$setSubcomponent''
                      (Some ''ON TARGET WITH PARAMETERS''))]))"

subsection \<open>Expressions\<close>

definition visitArithmeticExpression :: "string \<Rightarrow> visitor list \<Rightarrow> visitor" where
  "visitArithmeticExpression operator vs = seq
     [accept vs 1, accept vs 2,
      run (if operator = ''*'' then insertInvokeInstruction ''$product'' 2
           else if operator = ''/'' then insertInvokeInstruction ''$quotient'' 2
           else if operator = ''//'' then insertInvokeInstruction ''$remainder'' 2
           else if operator = ''+'' then insertInvokeInstruction ''$sum'' 2
           else if operator = ''-'' then insertInvokeInstruction ''$difference'' 2
           else id)]"

definition visitAssociation :: "visitor \<Rightarrow> visitor \<Rightarrow> visitor" where
  "visitAssociation key val = seq [key, val, run (insertInvokeInstruction ''$association'' 2)]"

definition visitComparisonExpression :: "string \<Rightarrow> visitor list \<Rightarrow> visitor" where
  "visitComparisonExpression operator vs = seq
     [accept vs 1, accept vs 2,
      run (if operator = ''<'' then insertInvokeInstruction ''$isLessThan'' 2
           else if operator = ''='' then insertInvokeInstruction ''$isEqualTo'' 2
           else if operator = ''>'' then insertInvokeInstruction ''$isMoreThan'' 2
           else if operator = ''is'' then insertInvokeInstruction ''$isSameAs'' 2
           else if operator = ''matches'' then insertInvokeInstruction ''$isMatchedBy'' 2
           else id)]"

definition visitComplementExpression :: "visitor list \<Rightarrow> visitor" where
  "visitComplementExpression vs =
     seq [accept vs 1, run (insertInvokeInstruction ''$complement'' 1)]"

definition visitConcatenationExpression :: "visitor list \<Rightarrow> visitor" where
  "visitConcatenationExpression vs =
     seq [accept vs 1, accept vs 2, run (insertInvokeInstruction ''$concatenation'' 2)]"

definition visitDefaultExpression :: "visitor list \<Rightarrow> visitor" where
  "visitDefaultExpression vs =
     seq [accept vs 1, accept vs 2, run (insertInvokeInstruction ''$default'' 2)]"

definition visitDereferenceExpression :: "visitor list \<Rightarrow> visitor" where
  "visitDereferenceExpression vs = seq
     [accept vs 1,
      createTemporaryVariable ''location'' (\<lambda>location. seq
        [run (insertStoreInstruction ''VARIABLE'' location),
         run (insertLoadInstruction ''DOCUMENT'' location)])]"

definition visitElement :: "string \<Rightarrow> visitor option \<Rightarrow> visitor" where
  "visitElement literal ps = seq
     [run (insertPushInstruction ''LITERAL'' literal),
      (case ps of
         None \<Rightarrow> seq []
       | Some p \<Rightarrow> seq [p, run (insertInvokeInstruction ''$setParameters'' 2)])]"

definition visitExponentialExpression :: "visitor list \<Rightarrow> visitor" where
  "visitExponentialExpression vs =
     seq [accept vs 1, accept vs 2, run (insertInvokeInstruction ''$exponential'' 2)]"

definition visitFactorialExpression :: "visitor list \<Rightarrow> visitor" where
  "visitFactorialExpression vs =
     seq [accept vs 1, run (insertInvokeInstruction ''$factorial'' 1)]"

text \<open>
  The arguments of a function are the items of its parameters; \<open>args\<close> are the visitors of
  the arguments, in which an association stands for its value.
\<close>

definition visitFunctionExpression :: "node list \<Rightarrow> visitor list \<Rightarrow> visitor" where
  "visitFunctionExpression cs args =
     (case getChild cs 1 of
        None \<Rightarrow> throw TypeError
      | Some f \<Rightarrow>
          (case getChild cs 2 of
             None \<Rightarrow> throw TypeError
           | Some ps \<Rightarrow>
               if getSize ps > 3 then throw TooManyParameters
               else seq (args @
                      [run (insertInvokeInstruction (''$'' @ toString f) (getSize ps))])))"

fun indicesLoop :: "visitor list \<Rightarrow> visitor" where
  "indicesLoop [] = throw TypeError"
| "indicesLoop [item] = item"
| "indicesLoop (item # items) = seq
     [run (insertInvokeInstruction ''$list'' 0),
      item,
      run (insertInvokeInstruction ''$addItem'' 2),
      run (insertInvokeInstruction ''$parameters'' 1),
      run (insertExecuteInstruction ''$getSubcomponent'' (Some ''ON TARGET WITH PARAMETERS'')),
      indicesLoop items]"

text \<open>The indices are the items of the list that is the child of the tree.\<close>

definition visitIndices :: "node list \<Rightarrow> visitor list \<Rightarrow> visitor" where
  "visitIndices cs items =
     (case getChild cs 1 of None \<Rightarrow> throw TypeError | Some l \<Rightarrow> indicesLoop items)"

definition visitInversionExpression :: "string \<Rightarrow> visitor list \<Rightarrow> visitor" where
  "visitInversionExpression operator vs = seq
     [accept vs 1,
      run (if operator = ''-'' then insertInvokeInstruction ''$inverse'' 1
           else if operator = ''/'' then insertInvokeInstruction ''$reciprocal'' 1
           else if operator = ''*'' then insertInvokeInstruction ''$conjugate'' 1
           else id)]"

definition visitLogicalExpression :: "string \<Rightarrow> visitor list \<Rightarrow> visitor" where
  "visitLogicalExpression operator vs = seq
     [accept vs 1, accept vs 2,
      run (if operator = ''and'' then insertInvokeInstruction ''$and'' 2
           else if operator = ''sans'' then insertInvokeInstruction ''$sans'' 2
           else if operator = ''xor'' then insertInvokeInstruction ''$xor'' 2
           else if operator = ''or'' then insertInvokeInstruction ''$or'' 2
           else id)]"

definition visitMagnitudeExpression :: "visitor list \<Rightarrow> visitor" where
  "visitMagnitudeExpression vs =
     seq [accept vs 1, run (insertInvokeInstruction ''$magnitude'' 1)]"

definition visitMessageExpression :: "node list \<Rightarrow> visitor list \<Rightarrow> visitor" where
  "visitMessageExpression cs vs =
     (case getChild cs 3 of
        None \<Rightarrow> throw TypeError
      | Some ps \<Rightarrow> seq
          [accept vs 1,
           (case getChild cs 2 of
              None \<Rightarrow> throw TypeError
            | Some message \<Rightarrow>
                if getSize ps > 0 then seq
                  [accept vs 3,
                   run (insertExecuteInstruction (''$'' @ toString message)
                          (Some ''ON TARGET WITH PARAMETERS''))]
                else
                  run (insertExecuteInstruction (''$'' @ toString message)
                         (Some ''ON TARGET'')))])"

definition visitParameters :: "visitor \<Rightarrow> visitor" where
  "visitParameters collection =
     seq [collection, run (insertInvokeInstruction ''$parameters'' 1)]"

definition visitRange :: "visitor \<Rightarrow> visitor \<Rightarrow> visitor option \<Rightarrow> visitor" where
  "visitRange start finish ps = seq
     [start, finish,
      (case ps of
         None \<Rightarrow> run (insertInvokeInstruction ''$range'' 2)
       | Some p \<Rightarrow> seq [p, run (insertInvokeInstruction ''$range'' 3)])]"

definition visitSource :: "string \<Rightarrow> visitor option \<Rightarrow> visitor" where
  "visitSource text ps = seq
     [run (insertPushInstruction ''LITERAL'' (''{'' @ text @ ''}'')),
      (case ps of
         None \<Rightarrow> seq []
       | Some p \<Rightarrow> seq [p, run (insertInvokeInstruction ''$setParameters'' 2)])]"

definition visitSubcomponentExpression :: "visitor list \<Rightarrow> visitor" where
  "visitSubcomponentExpression vs = seq
     [accept vs 1, accept vs 2,
      createTemporaryVariable ''index'' (\<lambda>index. seq
        [run (insertStoreInstruction ''VARIABLE'' index),
         run (insertInvokeInstruction ''$list'' 0),
         run (insertLoadInstruction ''VARIABLE'' index),
         run (insertInvokeInstruction ''$addItem'' 2),
         run (insertInvokeInstruction ''$parameters'' 1),
         run (insertExecuteInstruction ''$getSubcomponent''
                (Some ''ON TARGET WITH PARAMETERS''))])]"

definition visitVariable :: "string \<Rightarrow> visitor" where
  "visitVariable identifier b =
     (let variable = ''$'' @ identifier in
      if variable \<in> set (parameters b) then
        Inr (insertPushInstruction ''PARAMETER'' variable b)
      else if map_of (constants b) variable \<noteq> None then
        Inr (insertPushInstruction ''CONSTANT'' variable b)
      else
        (let b' = insertLoadInstruction ''VARIABLE'' variable b
         in Inr (b'\<lparr>variables := addItem (variables b') variable\<rparr>)))"

text \<open>
  A collection (catalog, list, queue, set or stack): the intrinsic that makes it is named
  after its class, with a dollar sign and a small first letter.
\<close>

fun constructorName :: "collection_type \<Rightarrow> string" where
  "constructorName Catalog = ''Catalog''"
| "constructorName List = ''List''"
| "constructorName Queue = ''Queue''"
| "constructorName Set = ''Set''"
| "constructorName Stack = ''Stack''"

definition toLowerCase :: "char \<Rightarrow> char" where
  "toLowerCase c =
     (case map_of (zip ''ABCDEFGHIJKLMNOPQRSTUVWXYZ'' ''abcdefghijklmnopqrstuvwxyz'') c of
        None \<Rightarrow> c
      | Some l \<Rightarrow> l)"

fun collectionLoop :: "visitor list \<Rightarrow> visitor" where
  "collectionLoop [] = seq []"
| "collectionLoop (item # items) =
     seq [item, run (insertInvokeInstruction ''$addItem'' 2), collectionLoop items]"

definition visitCollection ::
  "collection_type \<Rightarrow> visitor option \<Rightarrow> visitor list \<Rightarrow> visitor" where
  "visitCollection t ps items =
     (let type = ''$'' @ map toLowerCase (take 1 (constructorName t))
                 @ drop 1 (constructorName t)
      in seq
        [(case ps of
            None \<Rightarrow> run (insertInvokeInstruction type 0)
          | Some p \<Rightarrow> seq [p, run (insertInvokeInstruction type 1)]),
         collectionLoop items])"

subsection \<open>Clauses\<close>

definition visitCheckoutClause :: "node list \<Rightarrow> visitor list \<Rightarrow> visitor" where
  "visitCheckoutClause cs vs = seq
     [accept vs 1, accept vs 2,
      createTemporaryVariable ''location'' (\<lambda>location. seq
        [run (insertStoreInstruction ''VARIABLE'' location),
         run (insertLoadInstruction ''DOCUMENT'' location)]),
      setRecipient (getChild cs 1)]"

definition visitCommitClause :: "visitor list \<Rightarrow> visitor" where
  "visitCommitClause vs = seq
     [accept vs 2,
      createTemporaryVariable ''location'' (\<lambda>location. seq
        [run (insertStoreInstruction ''VARIABLE'' location),
         accept vs 1,
         run (insertStoreInstruction ''DOCUMENT'' location)])]"

definition visitDiscardClause :: "visitor list \<Rightarrow> visitor" where
  "visitDiscardClause vs = seq
     [accept vs 1,
      createTemporaryVariable ''location'' (\<lambda>location. seq
        [run (insertStoreInstruction ''VARIABLE'' location),
         run (insertPushInstruction ''LITERAL'' ''none''),
         run (insertStoreInstruction ''DRAFT'' location)])]"

definition visitEvaluateClause :: "node list \<Rightarrow> visitor list \<Rightarrow> visitor" where
  "visitEvaluateClause cs vs =
     (if length cs > 1 then seq
        [(case getChild cs 1 of
            None \<Rightarrow> throw TypeError
          | Some recipient \<Rightarrow>
              if getTypeId recipient = TREE SubcomponentExpression then accept vs 1
              else seq []),
         accept vs (- 1),
         setRecipient (getChild cs 1)]
      else seq
        [accept vs (- 1),
         run (insertStoreInstruction ''VARIABLE'' ''$$result'')])"

definition visitHandleClause :: "node list \<Rightarrow> visitor list \<Rightarrow> visitor" where
  "visitHandleClause cs vs =
     reading getStatementContext (\<lambda>statement.
     reading getClausePrefix (\<lambda>clausePrefix. seq
       [run (insertLabel (Some (clausePrefix @ ''HandleClause''))),
        (case getChild cs 1 of
           None \<Rightarrow> throw TypeError
         | Some symbol \<Rightarrow> seq
             [run (insertStoreInstruction ''VARIABLE'' (toString symbol)),
              run (insertLoadInstruction ''VARIABLE'' (toString symbol)),
              run (insertLoadInstruction ''VARIABLE'' (toString symbol))]),
        accept vs 2,
        run (insertInvokeInstruction ''$isMatchedBy'' 2),
        reading getNextClausePrefix (\<lambda>nextClausePrefix.
        reading getStatementContext (\<lambda>current.
          run (insertJumpInstruction
                 (if clauseNumber current = clauseCount current then failureLabel current
                  else Some (nextClausePrefix @ ''HandleClause''))
                 (Some ''ON FALSE'')))),
        run (insertPopInstruction ''COMPONENT''),
        accept vs 3,
        run (insertLabel (Some (clausePrefix @ ''HandleClauseDone''))),
        run (insertJumpInstruction (successLabel statement) None)]))"

text \<open>
  The conditions and blocks of an if clause, taken in pairs; \<open>hasElse\<close> tells whether an else
  block follows them.
\<close>

fun ifLoop :: "string option \<Rightarrow> bool \<Rightarrow> visitor list \<Rightarrow> visitor" where
  "ifLoop exit hasElse (condition # block # rest) =
     reading getClausePrefix (\<lambda>clausePrefix. seq
       [run (insertLabel (Some (clausePrefix @ ''ConditionClause''))),
        condition,
        reading getNextClausePrefix (\<lambda>nextClausePrefix.
          run (insertJumpInstruction
                 (if rest = [] then
                    (if hasElse then Some (nextClausePrefix @ ''ElseClause'') else exit)
                  else Some (nextClausePrefix @ ''ConditionClause''))
                 (Some ''ON FALSE''))),
        block,
        (if hasElse \<or> rest \<noteq> [] then seq
           [run (insertLabel (Some (clausePrefix @ ''ConditionClauseDone''))),
            run (insertJumpInstruction exit None)]
         else seq []),
        ifLoop exit hasElse rest])"
| "ifLoop exit hasElse [condition] =
     reading getClausePrefix (\<lambda>clausePrefix. seq
       [run (insertLabel (Some (clausePrefix @ ''ConditionClause''))),
        condition,
        throw TypeError])"
| "ifLoop exit hasElse [] = seq []"

definition visitIfClause :: "visitor list \<Rightarrow> visitor" where
  "visitIfClause vs =
     reading getStatementContext (\<lambda>statement.
       if odd (length vs) then seq
         [ifLoop (doneLabel statement) True (butlast vs),
          reading getClausePrefix (\<lambda>clausePrefix. seq
            [run (insertLabel (Some (clausePrefix @ ''ElseClause''))),
             last vs,
             run (insertLabel (Some (clausePrefix @ ''ElseClauseDone'')))])]
       else ifLoop (doneLabel statement) False vs)"

definition visitPublishClause :: "visitor list \<Rightarrow> visitor" where
  "visitPublishClause vs =
     seq [accept vs 1, run (insertStoreInstruction ''MESSAGE'' ''$$eventQueue'')]"

definition visitQueueClause :: "visitor list \<Rightarrow> visitor" where
  "visitQueueClause vs = seq
     [accept vs 2,
      createTemporaryVariable ''queue'' (\<lambda>queue. seq
        [run (insertStoreInstruction ''VARIABLE'' queue),
         accept vs 1,
         run (insertStoreInstruction ''MESSAGE'' queue)])]"

definition visitReturnClause :: "node list \<Rightarrow> visitor list \<Rightarrow> visitor" where
  "visitReturnClause cs vs = seq
     [(if length cs > 0 then accept vs 1
       else run (insertPushInstruction ''LITERAL'' ''none'')),
      run (insertHandleInstruction ''RESULT''),
      run (setRequiresFinalization False)]"

definition visitSaveClause :: "visitor list \<Rightarrow> visitor" where
  "visitSaveClause vs = seq
     [accept vs 2,
      createTemporaryVariable ''location'' (\<lambda>location. seq
        [run (insertStoreInstruction ''VARIABLE'' location),
         accept vs 1,
         run (insertStoreInstruction ''DRAFT'' location)])]"

fun selectLoop :: "string option \<Rightarrow> bool \<Rightarrow> string \<Rightarrow> visitor list \<Rightarrow> visitor" where
  "selectLoop exit hasElse selectorVariable (option # block # rest) =
     reading getClausePrefix (\<lambda>clausePrefix. seq
       [run (insertLabel (Some (clausePrefix @ ''OptionClause''))),
        run (insertLoadInstruction ''VARIABLE'' selectorVariable),
        option,
        run (insertInvokeInstruction ''$isMatchedBy'' 2),
        reading getNextClausePrefix (\<lambda>nextClausePrefix.
          run (insertJumpInstruction
                 (if rest = [] then
                    (if hasElse then Some (nextClausePrefix @ ''ElseClause'') else exit)
                  else Some (nextClausePrefix @ ''OptionClause''))
                 (Some ''ON FALSE''))),
        block,
        (if hasElse \<or> rest \<noteq> [] then seq
           [run (insertLabel (Some (clausePrefix @ ''OptionClauseDone''))),
            run (insertJumpInstruction exit None)]
         else seq []),
        selectLoop exit hasElse selectorVariable rest])"
| "selectLoop exit hasElse selectorVariable [option] =
     reading getClausePrefix (\<lambda>clausePrefix. seq
       [run (insertLabel (Some (clausePrefix @ ''OptionClause''))),
        run (insertLoadInstruction ''VARIABLE'' selectorVariable),
        option,
        throw TypeError])"
| "selectLoop exit hasElse selectorVariable [] = seq []"

definition visitSelectClause :: "visitor list \<Rightarrow> visitor" where
  "visitSelectClause vs =
     reading getStatementContext (\<lambda>statement. seq
       [accept vs 1,
        createTemporaryVariable ''selector'' (\<lambda>selectorVariable. seq
          [run (insertStoreInstruction ''VARIABLE'' selectorVariable),
           (if odd (length (drop 1 vs)) then seq
              [selectLoop (doneLabel statement) True selectorVariable (butlast (drop 1 vs)),
               reading getClausePrefix (\<lambda>clausePrefix. seq
                 [run (insertLabel (Some (clausePrefix @ ''ElseClause''))),
                  last vs,
                  run (insertLabel (Some (clausePrefix @ ''ElseClauseDone''))),
                  run (insertJumpInstruction (doneLabel statement) None)])]
            else selectLoop (doneLabel statement) False selectorVariable (drop 1 vs))])])"

definition visitThrowClause :: "visitor list \<Rightarrow> visitor" where
  "visitThrowClause vs = seq
     [accept vs 1,
      run (insertHandleInstruction ''EXCEPTION''),
      run (setRequiresFinalization False)]"

definition visitWaitClause :: "node list \<Rightarrow> visitor list \<Rightarrow> visitor" where
  "visitWaitClause cs vs = seq
     [accept vs 1, accept vs 2,
      createTemporaryVariable ''queue'' (\<lambda>queue. seq
        [run (insertStoreInstruction ''VARIABLE'' queue),
         run (insertLoadInstruction ''MESSAGE'' queue)]),
      setRecipient (getChild cs 1)]"

definition visitWhileClause :: "visitor list \<Rightarrow> visitor" where
  "visitWhileClause vs =
     reading getClausePrefix (\<lambda>clausePrefix.
     reading getStatementContext (\<lambda>statement. seq
       [setLoopLabel (clausePrefix @ ''ConditionClause''),
        run (insertLabel (Some (clausePrefix @ ''ConditionClause''))),
        accept vs 1,
        run (insertJumpInstruction (doneLabel statement) (Some ''ON FALSE'')),
        accept vs 2,
        reading getStatementPrefix (\<lambda>statementPrefix.
        reading getStatementContext (\<lambda>current. seq
          [run (insertLabel (Some (statementPrefix @ ''ConditionRepeat''))),
           run (insertJumpInstruction (loopLabel current) None)]))]))"

definition visitWithClause :: "node list \<Rightarrow> visitor list \<Rightarrow> visitor" where
  "visitWithClause cs vs =
     (\<lambda>k. if length cs > 2 then
             (case getChild cs 1 of
                None \<Rightarrow> throw TypeError
              | Some symbol \<Rightarrow> k (toString symbol))
           else createTemporaryVariable ''item'' k)
     (\<lambda>variable.
     reading getClausePrefix (\<lambda>clausePrefix.
     reading getStatementContext (\<lambda>statement. seq
       [setLoopLabel (clausePrefix @ ''ConditionClause''),
        accept vs (- 2),
        run (insertExecuteInstruction ''$getIterator'' (Some ''ON TARGET'')),
        createTemporaryVariable ''iterator'' (\<lambda>iterator. seq
          [run (insertStoreInstruction ''VARIABLE'' iterator),
           run (insertLabel (Some (clausePrefix @ ''ConditionClause''))),
           run (insertLoadInstruction ''VARIABLE'' iterator),
           run (insertExecuteInstruction ''$hasNext'' (Some ''ON TARGET'')),
           run (insertJumpInstruction (doneLabel statement) (Some ''ON FALSE'')),
           run (insertLoadInstruction ''VARIABLE'' iterator),
           run (insertExecuteInstruction ''$getNext'' (Some ''ON TARGET'')),
           run (insertStoreInstruction ''VARIABLE'' variable),
           accept vs (- 1),
           reading getStatementPrefix (\<lambda>statementPrefix.
           reading getStatementContext (\<lambda>current. seq
             [run (insertLabel (Some (statementPrefix @ ''ConditionRepeat''))),
              run (insertJumpInstruction (loopLabel current) None)]))])])))"

subsection \<open>Statements and procedures\<close>

text \<open>
  A statement: the main clause is the first child of the tree, the handle clauses are the
  other children. The labels are those of the statement context made on entry; whether the
  statement has clauses and handlers is read from the top of the stack when it is asked.
\<close>

definition visitStatement :: "node list \<Rightarrow> visitor list \<Rightarrow> visitor" where
  "visitStatement cs vs = seq
     [pushStatementContext cs,
      reading getStatementContext (\<lambda>statement. seq
        [run (insertLabel (Some (startLabel statement))),
         reading hasHandlers (\<lambda>handlers.
           if handlers then run (insertPushInstruction ''HANDLER'' (str (handlerLabel statement)))
           else seq []),
         accept vs 1,
         reading hasClauses (\<lambda>clauses.
           if clauses then seq
             [run (insertLabel (doneLabel statement)),
              reading hasHandlers (\<lambda>handlers.
                if handlers then seq
                  [run (insertPopInstruction ''HANDLER''),
                   run (insertJumpInstruction (successLabel statement) None),
                   run (insertLabel (handlerLabel statement)),
                   seq (drop 1 vs),
                   run (insertLabel (failureLabel statement)),
                   run (insertHandleInstruction ''EXCEPTION''),
                   run (insertLabel (successLabel statement))]
                else seq [])]
           else seq []),
         popStatementContext])]"

fun procedureLoop :: "visitor list \<Rightarrow> visitor" where
  "procedureLoop [] = seq []"
| "procedureLoop (stmt # rest) = seq
     [run (setRequiresFinalization True),
      stmt,
      incrementStatementCount,
      procedureLoop rest]"

definition visitProcedure :: "visitor list \<Rightarrow> visitor" where
  "visitProcedure vs = seq
     [pushProcedureContext (length vs),
      procedureLoop vs,
      run popProcedureContext]"

subsection \<open>The dispatch on the type of a node\<close>

text \<open>
  A block is compiled by compiling its procedure, which is the default of the visitor of
  the component framework. The identifier trees of functions and messages are read, not
  visited.
\<close>

definition visitTree :: "tree_type \<Rightarrow> string \<Rightarrow> node list \<Rightarrow> visitor list \<Rightarrow> visitor" where
  "visitTree t text cs vs =
     (case t of
        ArithmeticExpression \<Rightarrow> visitArithmeticExpression text vs
      | Block \<Rightarrow> accept vs 1
      | BreakClause \<Rightarrow> visitBreakClause
      | CheckoutClause \<Rightarrow> visitCheckoutClause cs vs
      | CommitClause \<Rightarrow> visitCommitClause vs
      | ComparisonExpression \<Rightarrow> visitComparisonExpression text vs
      | ComplementExpression \<Rightarrow> visitComplementExpression vs
      | ConcatenationExpression \<Rightarrow> visitConcatenationExpression vs
      | ContinueClause \<Rightarrow> visitContinueClause
      | DefaultExpression \<Rightarrow> visitDefaultExpression vs
      | DereferenceExpression \<Rightarrow> visitDereferenceExpression vs
      | DiscardClause \<Rightarrow> visitDiscardClause vs
      | EvaluateClause \<Rightarrow> visitEvaluateClause cs vs
      | ExponentialExpression \<Rightarrow> visitExponentialExpression vs
      | FactorialExpression \<Rightarrow> visitFactorialExpression vs
      | Function \<Rightarrow> seq []
      | FunctionExpression \<Rightarrow> throw TypeError
      | HandleClause \<Rightarrow> visitHandleClause cs vs
      | IfClause \<Rightarrow> visitIfClause vs
      | Indices \<Rightarrow> throw TypeError
      | InversionExpression \<Rightarrow> visitInversionExpression text vs
      | LogicalExpression \<Rightarrow> visitLogicalExpression text vs
      | MagnitudeExpression \<Rightarrow> visitMagnitudeExpression vs
      | Message \<Rightarrow> seq []
      | MessageExpression \<Rightarrow> visitMessageExpression cs vs
      | Procedure \<Rightarrow> visitProcedure vs
      | PublishClause \<Rightarrow> visitPublishClause vs
      | QueueClause \<Rightarrow> visitQueueClause vs
      | ReturnClause \<Rightarrow> visitReturnClause cs vs
      | SaveClause \<Rightarrow> visitSaveClause vs
      | SelectClause \<Rightarrow> visitSelectClause vs
      | Statement \<Rightarrow> visitStatement cs vs
      | SubcomponentExpression \<Rightarrow> visitSubcomponentExpression vs
      | ThrowClause \<Rightarrow> visitThrowClause vs
      | Variable \<Rightarrow> visitVariable text
      | WaitClause \<Rightarrow> visitWaitClause cs vs
      | WhileClause \<Rightarrow> visitWhileClause vs
      | WithClause \<Rightarrow> visitWithClause cs vs)"

text \<open>The items that the function expression and the indices iterate over.\<close>

definition itemsOfChild :: "node list \<Rightarrow> int \<Rightarrow> node list" where
  "itemsOfChild cs i = (case getChild cs i of None \<Rightarrow> [] | Some c \<Rightarrow> getItems c)"

function visit :: "node \<Rightarrow> visitor" where
  "visit (Tree t text cs) =
     (if t = FunctionExpression then
        visitFunctionExpression cs (map (\<lambda>p. visit (argument p)) (itemsOfChild cs 2))
      else if t = Indices then
        visitIndices cs (map visit (itemsOfChild cs 1))
      else visitTree t text cs (map visit cs))"
| "visit (Element t text ps) = visitElement text (map_option visit ps)"
| "visit (Collection t ps items) = visitCollection t (map_option visit ps) (map visit items)"
| "visit (Range start finish ps) = visitRange (visit start) (visit finish) (map_option visit ps)"
| "visit (Association key val) = visitAssociation (visit key) (visit val)"
| "visit (Parameters collection) = visitParameters (visit collection)"
| "visit (Source text procedure ps) = visitSource text (map_option visit ps)"
  by pat_completeness auto
termination
proof -
  have a: "size (argument p) \<le> size p" for p
    by (cases p) auto
  have m: "x \<in> set xs \<Longrightarrow> size x < Suc (size_list size xs)" for x :: node and xs
    by (induction xs) auto
  have i: "x \<in> set (getItems n) \<Longrightarrow> size x < size n" for x n
    by (induction n) (auto dest: m)
  have g: "getChild cs k = Some c \<Longrightarrow> c \<in> set cs" for cs :: "node list" and k c
    by (auto simp add: getChild_def Let_def split: if_splits)
  have c: "size x < Suc (size_list size cs)" if "x \<in> set (itemsOfChild cs k)" for x cs k
  proof (cases "getChild cs k")
    case None
    with that show ?thesis by (simp add: itemsOfChild_def)
  next
    case (Some n)
    with that have "size x < size n" by (simp add: itemsOfChild_def i)
    moreover from Some have "size n < Suc (size_list size cs)" by (intro m g)
    ultimately show ?thesis by simp
  qed
  show ?thesis
    apply (relation "measure size")
    apply (auto dest: m c)
    apply (metis a c le_less_trans less_SucI)
    done
qed

subsection \<open>Compiling a procedure\<close>

text \<open>
  \<open>getInstructions\<close> finalizes the builder when the flag asks for it; the assembly that it
  returns is the \<open>asmcode\<close> of the resulting state.
\<close>

definition getInstructions :: "compiler \<Rightarrow> compiler" where
  "getInstructions b = (if requiresFinalization b = Some True then finalize b else b)"

text \<open>
  \<open>compileProcedure\<close> in two parts. The first part \<open>compileAssembly\<close> is the source up to the
  call of \<open>getInstructions\<close>: the parameters are the declared names, the variables start as
  the set of \<open>$target\<close>, and the procedure is visited. It gives the state of the builder,
  whose \<open>asmcode\<close> is the text that \<open>getInstructions\<close> returns.
\<close>

definition compileAssembly :: "'a tables_scheme \<Rightarrow> node \<Rightarrow> error + compiler" where
  "compileAssembly type source =
     (case source of
        Source text procedure ps \<Rightarrow>
          (case visit procedure
                  ((newCompiler (map toString (extractParameters source)))
                     \<lparr>literals := literals type, constants := constants type\<rparr>) of
             Inl e \<Rightarrow> Inl e
           | Inr b \<Rightarrow> Inr (getInstructions b))
      | _ \<Rightarrow> Inl TypeError)"

text \<open>
  The second part parses the text with \<open>utilities.Parser(true).parseDocument\<close>, formats the
  instructions with one level of indentation and stores them in the context as a text
  component of the media type of the assembly. That parser is not among the sources: it is
  the argument \<open>parser\<close>. The result is the compilation context with its
  \<open>$instructions\<close>, together with the literals and constants of the type context, which the
  builder has updated in place.
\<close>

record compilation = tables +
  instructions :: component

text \<open>
  The source text of the component that holds the instructions: the formatted assembly on
  lines of its own between double quotes, with the media type as its parameter.
\<close>

definition textOfAssembly :: "string \<Rightarrow> component" where
  "textOfAssembly formatted =
     [CHR 0x22] @ EOL @ formatted @ EOL @ [CHR 0x22]
     @ ''($mediatype: '' @ [CHR 0x22] @ ''application/basm'' @ [CHR 0x22] @ '')''"

definition compileProcedure ::
  "(string \<Rightarrow> error + step list) \<Rightarrow> types \<Rightarrow> 'a tables_scheme \<Rightarrow> node
    \<Rightarrow> error + compilation" where
  "compileProcedure parser T type source =
     (case compileAssembly type source of
        Inl e \<Rightarrow> Inl e
      | Inr b \<Rightarrow>
          (case parser (asmcode b) of
             Inl e \<Rightarrow> Inl e
           | Inr steps \<Rightarrow>
               (case formatInstructions T 1 steps of
                  Inl e \<Rightarrow> Inl e
                | Inr formatted \<Rightarrow>
                    Inr \<lparr> literals = literals b, constants = constants b,
                          parameters = parameters b, variables = variables b,
                          procedures = procedures b, addresses = addresses b,
                          instructions = textOfAssembly formatted \<rparr>)))"

text \<open>Concrete inputs: syntax trees of small procedures, and an empty type context.\<close>

definition emptyType :: tables where
  "emptyType = \<lparr> literals = [], constants = [], parameters = [], variables = [],
     procedures = [], addresses = [] \<rparr>"

definition sourceOf :: "node list \<Rightarrow> node" where
  "sourceOf statements = Source [] (Tree Procedure [] statements) None"

definition returnNone :: node where
  "returnNone = Tree ReturnClause [] []"

definition evaluateTrue :: node where
  "evaluateTrue = Tree EvaluateClause [] [Element PROBABILITY ''true'' None]"

definition blockOf :: "node list \<Rightarrow> node" where
  "blockOf statements = Tree Block [] [Tree Procedure [] statements]"

definition handleWith :: "node list \<Rightarrow> node" where
  "handleWith statements =
     Tree HandleClause []
       [Element SYMBOL ''$e'' None, Element TEXT ''none'' None, blockOf statements]"

text \<open>The text made of the given lines, each ended by the end of line character.\<close>

definition unlines :: "string list \<Rightarrow> string" where
  "unlines ls = concat (map (\<lambda>l. l @ EOL) ls)"

text \<open>
  The procedure whose only statement is \<open>true handle $e matching none with { return }\<close>, and
  the procedure whose only statement is \<open>true handle $e matching none with { true }\<close>.
\<close>

definition handledByReturn :: node where
  "handledByReturn =
     sourceOf [Tree Statement [] [evaluateTrue, handleWith [Tree Statement [] [returnNone]]]]"

definition handledByEvaluate :: node where
  "handledByEvaluate =
     sourceOf [Tree Statement [] [evaluateTrue, handleWith [Tree Statement [] [evaluateTrue]]]]"

section \<open>Invariants of the compiling visitor\<close>

text \<open>
  What every method of the visitor keeps when it succeeds. The parameters of the procedure
  are as they were. The assembly only grows, and a
  label that was pending is either still pending, with nothing written, or defined by the
  first line written. The stack of procedure contexts is as it was, but for the clause
  number and the loop label of the statement of the top context, or for a statement that
  has been left.
\<close>

definition grows :: "compiler \<Rightarrow> compiler \<Rightarrow> bool" where
  "grows b b' \<longleftrightarrow>
     parameters b' = parameters b
     \<and> (\<exists>d. asmcode b' = asmcode b @ d)
     \<and> (\<forall>l. nextLabel b = Some l \<and> l \<noteq> [] \<longrightarrow>
            (asmcode b' = asmcode b \<and> nextLabel b' = Some l)
          \<or> (\<exists>d. asmcode b' =
                 asmcode b @ (if asmcode b \<noteq> [] then EOL else []) @ l @ '':'' @ EOL @ d))"

definition sameStatement :: "statement_context option \<Rightarrow> statement_context option \<Rightarrow> bool" where
  "sameStatement s s' \<longleftrightarrow>
     s' = None
     \<or> (\<exists>st st'. s = Some st \<and> s' = Some st'
            \<and> st' = st\<lparr>clauseNumber := clauseNumber st', loopLabel := loopLabel st'\<rparr>)"

definition sameFrames :: "procedure_context list \<Rightarrow> procedure_context list \<Rightarrow> bool" where
  "sameFrames ps ps' \<longleftrightarrow>
     (ps = [] \<and> ps' = [])
     \<or> (ps \<noteq> [] \<and> ps' \<noteq> [] \<and> tl ps' = tl ps
          \<and> prefix (hd ps') = prefix (hd ps)
          \<and> statementNumber (hd ps') = statementNumber (hd ps)
          \<and> statementCount (hd ps') = statementCount (hd ps)
          \<and> sameStatement (statement (hd ps)) (statement (hd ps')))"

definition steady :: "compiler \<Rightarrow> compiler \<Rightarrow> bool" where
  "steady b b' \<longleftrightarrow> grows b b' \<and> sameFrames (stack b) (stack b')"

definition preserves :: "(compiler \<Rightarrow> compiler \<Rightarrow> bool) \<Rightarrow> visitor \<Rightarrow> bool" where
  "preserves R v \<longleftrightarrow> (\<forall>b b'. v b = Inr b' \<longrightarrow> R b b')"

text \<open>
  What the statements of a procedure keep, below the procedure context of their own: the
  assembly grows and the rest of the stack is as it was.
\<close>

definition nested :: "compiler \<Rightarrow> compiler \<Rightarrow> bool" where
  "nested b b' \<longleftrightarrow>
     grows b b'
     \<and> ((stack b = [] \<and> stack b' = [])
        \<or> (stack b \<noteq> [] \<and> stack b' \<noteq> [] \<and> tl (stack b') = tl (stack b)))"

text \<open>
  Concrete inputs for the whole of \<open>compileProcedure\<close>: the procedure \<open>return\<close> declared with
  the parameters \<open>($y: 5, $z: 6)\<close>, a catalog, and with the parameters \<open>[$x, $y]\<close>, a list;
  and, in the place of the parser, a function that knows one text, the assembly that the
  visitor returns for this procedure, with the two steps that it denotes.
\<close>

definition returnWithDefaults :: node where
  "returnWithDefaults =
     Source ''return'' (Tree Procedure [] [Tree Statement [] [returnNone]])
       (Some (Parameters (Collection Catalog None
          [Association (Element SYMBOL ''$y'' None) (Element NUMBER ''5'' None),
           Association (Element SYMBOL ''$z'' None) (Element NUMBER ''6'' None)])))"

definition returnWithNames :: node where
  "returnWithNames =
     Source ''return'' (Tree Procedure [] [Tree Statement [] [returnNone]])
       (Some (Parameters (Collection List None
          [Element SYMBOL ''$x'' None, Element SYMBOL ''$y'' None])))"

definition parseReturn :: "string \<Rightarrow> error + step list" where
  "parseReturn assembly =
     (if assembly = unlines [''1.ReturnStatement:'', ''PUSH LITERAL `none`'', ''HANDLE RESULT'']
      then Inr [\<lparr>label = Some ''1.ReturnStatement'', operation = 1, modifier = Some 1,
                  operand = Some ''none''\<rparr>,
                \<lparr>label = None, operation = 7, modifier = Some 1, operand = None\<rparr>]
      else Inl SyntaxError)"

section \<open>The parser of the assembly\<close>

text \<open>
  Modelled from the spec: the parser of the assembly that \<open>compileProcedure\<close> calls
  (\<open>utilities.Parser\<close>, \<open>parseDocument\<close>) and its grammar are not among the sources. Section 6
  gives the grammar of the canonical assembly, in lines: a document is one or more steps,
  with blank lines before a step; a step is an instruction, after a line with its label and
  a colon when it has one; the instructions are those of the table below. A label is a word
  without spaces, a symbol a word that starts with a dollar sign, a count a word of decimal
  digits, and the text of a literal is what stands between the first back tick and the back
  tick that ends the line. The lines may be indented. A step is built as the formatter and
  the assembler read it (and as the methods of the parsing visitor of \<open>Parser.js\<close> build it
  for the instructions that this file has): the operation, the modifier (ON ANY for a JUMP
  without ON clause, the count for an INVOKE, the code of the words otherwise), the operand,
  and the label when there is one; SKIP INSTRUCTION has neither modifier nor operand. The
  codes are those of \<open>baliTypes\<close>.
\<close>

fun splitLines :: "string \<Rightarrow> string \<Rightarrow> string list" where
  "splitLines line [] = [line]"
| "splitLines line (c # cs) =
     (if c = CHR 0x0A then line # splitLines [] cs else splitLines (line @ [c]) cs)"

definition linesOf :: "string \<Rightarrow> string list" where
  "linesOf text = splitLines [] text"

fun tokensFrom :: "string \<Rightarrow> string \<Rightarrow> string list" where
  "tokensFrom w [] = (if w = [] then [] else [w])"
| "tokensFrom w (c # cs) =
     (if c = CHR '' '' then (if w = [] then tokensFrom [] cs else w # tokensFrom [] cs)
      else tokensFrom (w @ [c]) cs)"

definition tokens :: "string \<Rightarrow> string list" where
  "tokens line = tokensFrom [] line"

fun stripPrefix :: "string \<Rightarrow> string \<Rightarrow> string option" where
  "stripPrefix [] s = Some s"
| "stripPrefix (p # ps) [] = None"
| "stripPrefix (p # ps) (c # cs) = (if p = c then stripPrefix ps cs else None)"

definition isSymbol :: "string \<Rightarrow> bool" where
  "isSymbol w = (case w of [] \<Rightarrow> False | c # cs \<Rightarrow> c = CHR ''$'')"

fun digitsValue :: "nat \<Rightarrow> string \<Rightarrow> nat option" where
  "digitsValue n [] = Some n"
| "digitsValue n (c # cs) =
     (case indexOf ''0123456789'' c of
        None \<Rightarrow> None
      | Some d \<Rightarrow> digitsValue (10 * n + d) cs)"

definition numberOf :: "string \<Rightarrow> nat option" where
  "numberOf w = (if w = [] then None else digitsValue 0 w)"

definition instruction :: "nat \<Rightarrow> nat option \<Rightarrow> component option \<Rightarrow> step" where
  "instruction opcode m x = \<lparr>label = None, operation = opcode, modifier = m, operand = x\<rparr>"

definition coded :: "nat \<Rightarrow> string list \<Rightarrow> string \<Rightarrow> component option \<Rightarrow> error + step" where
  "coded opcode table word x =
     (case indexOf table word of
        None \<Rightarrow> Inl SyntaxError
      | Some m \<Rightarrow> Inr (instruction opcode (Some m) x))"

text \<open>
  Modelled from the spec: the instruction that the words of a line denote, rule by rule of
  the grammar of section 6, ordered by the number of the words.
\<close>

definition wordsRule :: "string list \<Rightarrow> error + step" where
  "wordsRule ws =
     (case ws of
        [a, b] \<Rightarrow>
          if a = ''SKIP'' \<and> b = ''INSTRUCTION'' then
            Inr (instruction (SKIP baliTypes) None None)
          else if a = ''POP'' then coded (POP baliTypes) [''HANDLER'', ''COMPONENT''] b None
          else if a = ''HANDLE'' then
            coded (HANDLE baliTypes) [''EXCEPTION'', ''RESULT''] b None
          else if a = ''INVOKE'' \<and> isSymbol b then
            Inr (instruction (INVOKE baliTypes) (Some 0) (Some b))
          else if a = ''EXECUTE'' \<and> isSymbol b then
            Inr (instruction (EXECUTE baliTypes) (Some (WITH_NOTHING baliTypes)) (Some b))
          else Inl SyntaxError
      | [a, b, c] \<Rightarrow>
          if a = ''JUMP'' \<and> b = ''TO'' then
            Inr (instruction (JUMP baliTypes) (Some (ON_ANY baliTypes)) (Some c))
          else if a = ''PUSH'' \<and> b = ''HANDLER'' then
            Inr (instruction (PUSH baliTypes) (Some (HANDLER baliTypes)) (Some c))
          else if a = ''PUSH'' \<and> b = ''CONSTANT'' \<and> isSymbol c then
            Inr (instruction (PUSH baliTypes) (Some (CONSTANT baliTypes)) (Some c))
          else if a = ''PUSH'' \<and> b = ''PARAMETER'' \<and> isSymbol c then
            Inr (instruction (PUSH baliTypes) (Some (PARAMETER baliTypes)) (Some c))
          else if a = ''LOAD'' \<and> isSymbol c then
            coded (LOAD baliTypes) [''VARIABLE'', ''MESSAGE'', ''DRAFT'', ''DOCUMENT''] b (Some c)
          else if a = ''STORE'' \<and> isSymbol c then
            coded (STORE baliTypes) [''VARIABLE'', ''MESSAGE'', ''DRAFT'', ''DOCUMENT''] b (Some c)
          else Inl SyntaxError
      | [a, b, c, d] \<Rightarrow>
          if a = ''INVOKE'' \<and> isSymbol b \<and> c = ''WITH'' \<and> d = ''PARAMETER'' then
            Inr (instruction (INVOKE baliTypes) (Some 1) (Some b))
          else if a = ''EXECUTE'' \<and> isSymbol b \<and> c = ''WITH'' \<and> d = ''PARAMETERS'' then
            Inr (instruction (EXECUTE baliTypes) (Some 1) (Some b))
          else if a = ''EXECUTE'' \<and> isSymbol b \<and> c = ''ON'' \<and> d = ''TARGET'' then
            Inr (instruction (EXECUTE baliTypes) (Some 2) (Some b))
          else Inl SyntaxError
      | [a, b, c, d, e] \<Rightarrow>
          if a = ''JUMP'' \<and> b = ''TO'' \<and> d = ''ON'' then
            (case indexOf [''NONE'', ''TRUE'', ''FALSE''] e of
               None \<Rightarrow> Inl SyntaxError
             | Some m \<Rightarrow> Inr (instruction (JUMP baliTypes) (Some (Suc m)) (Some c)))
          else if a = ''INVOKE'' \<and> isSymbol b \<and> c = ''WITH'' \<and> e = ''PARAMETERS'' then
            (case numberOf d of
               None \<Rightarrow> Inl SyntaxError
             | Some n \<Rightarrow> Inr (instruction (INVOKE baliTypes) (Some n) (Some b)))
          else Inl SyntaxError
      | [a, b, c, d, e, f] \<Rightarrow>
          if a = ''EXECUTE'' \<and> isSymbol b \<and> c = ''ON'' \<and> d = ''TARGET'' \<and> e = ''WITH''
             \<and> f = ''PARAMETERS'' then
            Inr (instruction (EXECUTE baliTypes) (Some 3) (Some b))
          else Inl SyntaxError
      | _ \<Rightarrow> Inl SyntaxError)"

text \<open>
  Modelled from the spec: a line, without its indentation, is blank, a label with its colon,
  or an instruction. The text of a literal may hold spaces, so a PUSH LITERAL is read before
  the line is cut into words.
\<close>

datatype line = Blank | Label string | Instruction step | Malformed

definition lineRule :: "string \<Rightarrow> line" where
  "lineRule l =
     (let s = dropWhile (\<lambda>c. c = CHR '' '') l in
      if s = [] then Blank
      else
        case stripPrefix ''PUSH LITERAL `'' s of
          Some rest \<Rightarrow>
            if rest \<noteq> [] \<and> last rest = CHR ''`'' then
              Instruction (instruction (PUSH baliTypes) (Some (LITERAL baliTypes))
                             (Some (butlast rest)))
            else Malformed
        | None \<Rightarrow>
            (case tokens s of
               [w] \<Rightarrow> if 2 \<le> length w \<and> last w = CHR '':'' then Label (butlast w) else Malformed
             | ws \<Rightarrow> (case wordsRule ws of Inl e \<Rightarrow> Malformed | Inr i \<Rightarrow> Instruction i)))"

text \<open>
  Modelled from the spec: the steps of a document, each an instruction, or a label and the
  instruction on the next line, with blank lines before a step; a document has at least one
  step.
\<close>

fun stepsRule :: "line list \<Rightarrow> error + step list" where
  "stepsRule [] = Inr []"
| "stepsRule (Blank # rest) = stepsRule rest"
| "stepsRule (Instruction i # rest) =
     (case stepsRule rest of Inl e \<Rightarrow> Inl e | Inr steps \<Rightarrow> Inr (i # steps))"
| "stepsRule (Label l # Instruction i # rest) =
     (case stepsRule rest of
        Inl e \<Rightarrow> Inl e
      | Inr steps \<Rightarrow> Inr (i\<lparr>label := Some l\<rparr> # steps))"
| "stepsRule (Label l # rest) = Inl SyntaxError"
| "stepsRule (Malformed # rest) = Inl SyntaxError"

definition parseDocument :: "string \<Rightarrow> error + step list" where
  "parseDocument text =
     (case stepsRule (map lineRule (linesOf text)) of
        Inl e \<Rightarrow> Inl e
      | Inr [] \<Rightarrow> Inl SyntaxError
      | Inr (s # steps) \<Rightarrow> Inr (s # steps))"

text \<open>
  The steps that the parser can give: the words of a step hold neither a space nor an end
  of line, the text of a literal holds no end of line, and the modifier is a code of the
  operation.
\<close>

definition isWord :: "string \<Rightarrow> bool" where
  "isWord w \<longleftrightarrow> w \<noteq> [] \<and> CHR '' '' \<notin> set w \<and> CHR 0x0A \<notin> set w"

definition wellFormed :: "step \<Rightarrow> bool" where
  "wellFormed s \<longleftrightarrow>
     (case label s of None \<Rightarrow> True | Some l \<Rightarrow> isWord l)
     \<and> (case modifier s of
          None \<Rightarrow> operation s = SKIP baliTypes \<and> operand s = None
        | Some m \<Rightarrow>
            (case operand s of
               None \<Rightarrow>
                 (operation s = POP baliTypes \<or> operation s = HANDLE baliTypes) \<and> m < 2
             | Some x \<Rightarrow>
                 if operation s = JUMP baliTypes then m < 4 \<and> isWord x
                 else if operation s = PUSH baliTypes then
                   m < 4
                   \<and> (if m = LITERAL baliTypes then CHR 0x0A \<notin> set x
                        else if m = HANDLER baliTypes then isWord x
                        else isWord x \<and> isSymbol x)
                 else if operation s = LOAD baliTypes \<or> operation s = STORE baliTypes
                         \<or> operation s = EXECUTE baliTypes then
                   m < 4 \<and> isWord x \<and> isSymbol x
                 else operation s = INVOKE baliTypes \<and> isWord x \<and> isSymbol x))"

text \<open>The text of the instruction of a step: what the formatter prints for it without label.\<close>

definition stepText :: "step \<Rightarrow> string" where
  "stepText s =
     (case fmt_visitCatalog baliTypes 0 [] (s\<lparr>label := None\<rparr>) of
        Inl e \<Rightarrow> []
      | Inr text \<Rightarrow> text)"

text \<open>
  Notions for the proof of the round trip. A step reads back when the formatter prints the
  text of its instruction after its label, that text holds no end of line, and the rule of
  the lines finds the instruction in it again.
\<close>

definition reads :: "step \<Rightarrow> bool" where
  "reads s \<longleftrightarrow>
     (\<forall>n source. fmt_visitCatalog baliTypes n source s
                   = Inr (fmt_label n source s @ stepText s))
     \<and> lineRule (stepText s) = Instruction (s\<lparr>label := None\<rparr>)
     \<and> CHR 0x0A \<notin> set (stepText s)"

text \<open>
  The lines that the formatter prints for a step, and the text that it appends for a list of
  lines: each line after an end of line. The label of a step other than the first comes
  after a blank line, which holds the indentation.
\<close>

definition stepLines :: "bool \<Rightarrow> nat \<Rightarrow> step \<Rightarrow> string list" where
  "stepLines first n s =
     (case label s of
        None \<Rightarrow> []
      | Some l \<Rightarrow> (if first then [] else [indent n]) @ [indent n @ l @ '':''])
     @ [indent n @ stepText s]"

definition laterLines :: "string list \<Rightarrow> string" where
  "laterLines ls = concat (map (\<lambda>l. EOL @ l) ls)"

text \<open>An instruction as the rule of the lines gives it: well-formed and without label.\<close>

definition plain :: "step \<Rightarrow> bool" where
  "plain i \<longleftrightarrow> wellFormed i \<and> label i = None"

text \<open>
  The round trip of the specification: format the instructions, parse the text, format what
  the parser gives.
\<close>

definition roundTrip :: "nat \<Rightarrow> step list \<Rightarrow> error + string" where
  "roundTrip indentation steps =
     (case formatInstructions baliTypes indentation steps of
        Inl e \<Rightarrow> Inl e
      | Inr text \<Rightarrow>
          (case parseDocument text of
             Inl e \<Rightarrow> Inl e
           | Inr parsed \<Rightarrow> formatInstructions baliTypes indentation parsed))"

text \<open>
  A concrete input: the procedure whose only statement is \<open>x + y\<close>, the assembly that the
  visitor returns for it, and the instructions that the assembly denotes.
\<close>

definition sumOfVariables :: node where
  "sumOfVariables =
     sourceOf [Tree Statement []
       [Tree EvaluateClause []
         [Tree ArithmeticExpression ''+'' [Tree Variable ''x'' [], Tree Variable ''y'' []]]]]"

definition sumAssembly :: string where
  "sumAssembly =
     unlines [''1.EvaluateStatement:'', ''LOAD VARIABLE $x'', ''LOAD VARIABLE $y'',
              ''INVOKE $sum WITH 2 PARAMETERS'', ''STORE VARIABLE $$result'',
              ''LOAD VARIABLE $$result'', ''HANDLE RESULT'']"

definition sumInstructions :: "step list" where
  "sumInstructions =
     [\<lparr>label = Some ''1.EvaluateStatement'', operation = 3, modifier = Some 0,
        operand = Some ''$x''\<rparr>,
      \<lparr>label = None, operation = 3, modifier = Some 0, operand = Some ''$y''\<rparr>,
      \<lparr>label = None, operation = 5, modifier = Some 2, operand = Some ''$sum''\<rparr>,
      \<lparr>label = None, operation = 4, modifier = Some 0, operand = Some ''$$result''\<rparr>,
      \<lparr>label = None, operation = 3, modifier = Some 0, operand = Some ''$$result''\<rparr>,
      \<lparr>label = None, operation = 7, modifier = Some 1, operand = None\<rparr>]"

section \<open>Properties of the assembler\<close>

lemma getIndexFrom_absent: "item \<notin> set items \<Longrightarrow> getIndexFrom n items item = 0"
  by (induction items arbitrary: n) auto

lemma getIndex_absent: "item \<notin> set items \<Longrightarrow> getIndex items item = 0"
  by (simp add: getIndex_def getIndexFrom_absent)

text \<open>
  Claim C2, as stated: a JUMP or PUSH HANDLER step whose label has no entry in the addresses,
  or a PUSH LITERAL, CONSTANT or PARAMETER step whose operand is in no table, makes the
  assembler fail with an invalid reference instead of producing a word. The assembler has no
  such check. With empty tables, the step \<open>JUMP TO 1.IfStatementDone ON FALSE\<close> and the step
  \<open>PUSH LITERAL `true`\<close> are both assembled into a word.
\<close>

theorem missing_reference_counterexample:
  "visitCatalog baliTypes fieldsOf [] emptyVisitor
      \<lparr>label = None, operation = 0, modifier = Some 3, operand = Some ''1.IfStatementDone''\<rparr>
     = Inr (emptyVisitor\<lparr>bytecode := [(0, 3, Undefined)]\<rparr>)
   \<and> visitCatalog baliTypes fieldsOf [] emptyVisitor
      \<lparr>label = None, operation = 1, modifier = Some 1, operand = Some ''true''\<rparr>
     = Inr (emptyVisitor\<lparr>bytecode := [(1, 1, Number 0)]\<rparr>)"
  by (simp add: visitCatalog_def visitJumpInstruction_def visitPushInstruction_def emit_def
      baliTypes_def fieldsOf_def emptyVisitor_def getValueOf_def getIndexOf_def getValue_def
      getIndex_def)

text \<open>
  Claim C2, amended: the assembler does not check references. For a JUMP step with a modifier
  or a PUSH HANDLER step whose label has no entry in the addresses it appends the word encoded
  with an undefined operand; for a PUSH LITERAL, PUSH CONSTANT or PUSH PARAMETER step whose
  operand is not in the table it appends the word encoded with index 0. (The codes of PUSH and
  JUMP and the four PUSH modifiers are taken to be distinct.)
\<close>

theorem missing_reference_is_encoded:
  assumes "PUSH T \<noteq> JUMP T"
    and "distinct [HANDLER T, LITERAL T, CONSTANT T, PARAMETER T]"
    and "operand s = Some x"
  shows "(operation s = JUMP T \<and> modifier s = Some m \<and> map_of (addresses v) x = None \<longrightarrow>
            visitCatalog T enc names v s
              = Inr (v\<lparr>bytecode := bytecode v @ [enc (JUMP T) m Undefined]\<rparr>))
       \<and> (operation s = PUSH T \<and> modifier s = Some (HANDLER T)
            \<and> map_of (addresses v) x = None \<longrightarrow>
            visitCatalog T enc names v s
              = Inr (v\<lparr>bytecode := bytecode v @ [enc (PUSH T) (HANDLER T) Undefined]\<rparr>))
       \<and> (operation s = PUSH T \<and> modifier s = Some (LITERAL T) \<and> x \<notin> set (literals v) \<longrightarrow>
            visitCatalog T enc names v s
              = Inr (v\<lparr>bytecode := bytecode v @ [enc (PUSH T) (LITERAL T) (Number 0)]\<rparr>))
       \<and> (operation s = PUSH T \<and> modifier s = Some (CONSTANT T)
            \<and> x \<notin> fst ` set (constants v) \<longrightarrow>
            visitCatalog T enc names v s
              = Inr (v\<lparr>bytecode := bytecode v @ [enc (PUSH T) (CONSTANT T) (Number 0)]\<rparr>))
       \<and> (operation s = PUSH T \<and> modifier s = Some (PARAMETER T)
            \<and> x \<notin> set (parameters v) \<longrightarrow>
            visitCatalog T enc names v s
              = Inr (v\<lparr>bytecode := bytecode v @ [enc (PUSH T) (PARAMETER T) (Number 0)]\<rparr>))"
  using assms
  by (auto simp add: visitCatalog_def visitJumpInstruction_def visitPushInstruction_def emit_def
      getValueOf_def getIndexOf_def getValue_def getIndex_absent)

theorem missing_reference_is_encoded_witness:
  "visitCatalog baliTypes fieldsOf [] emptyVisitor
      \<lparr>label = None, operation = 1, modifier = Some 0, operand = Some ''1.ThrowStatementHandlers''\<rparr>
     = Inr (emptyVisitor\<lparr>bytecode := [(1, 0, Undefined)]\<rparr>)
   \<and> visitCatalog baliTypes fieldsOf [] emptyVisitor
      \<lparr>label = None, operation = 1, modifier = Some 3, operand = Some ''$x''\<rparr>
     = Inr (emptyVisitor\<lparr>bytecode := [(1, 3, Number 0)]\<rparr>)"
  using missing_reference_is_encoded [of baliTypes
      "\<lparr>label = None, operation = 1, modifier = Some 0, operand = Some ''1.ThrowStatementHandlers''\<rparr>"
      "''1.ThrowStatementHandlers''" 0 emptyVisitor fieldsOf "[]"]
    missing_reference_is_encoded [of baliTypes
      "\<lparr>label = None, operation = 1, modifier = Some 3, operand = Some ''$x''\<rparr>"
      "''$x''" 0 emptyVisitor fieldsOf "[]"]
  by (simp add: baliTypes_def fieldsOf_def emptyVisitor_def)

text \<open>
  The one check of a name is in \<open>Intrinsics.js\<close>: an INVOKE step whose symbol is not in the
  table of the intrinsics fails, with the exception \<open>$invalidName\<close> of \<open>index\<close>.
\<close>

lemma indexOf_absent: "x \<notin> set xs \<Longrightarrow> indexOf xs x = None"
  by (induction xs) auto

lemma unknown_intrinsic_is_invalid_name:
  assumes "INVOKE T \<notin> {JUMP T, PUSH T, POP T, LOAD T, STORE T}"
    and "operation s = INVOKE T" and "modifier s = Some n" and "operand s = Some x"
    and "x \<notin> set names"
  shows "visitCatalog T enc names v s = Inl (InvalidName x)"
  using assms
  by (simp add: visitCatalog_def visitInvokeInstruction_def index_def indexOf_absent)

text \<open>
  Claim C5: a step with the operation JUMP and no modifier is assembled into the word that
  encodes SKIP with modifier 0 and operand 0; a JUMP step with a modifier is assembled into
  the word that encodes JUMP, that modifier and the value found for the label operand in the
  addresses. The word is appended to the bytecode.
\<close>

theorem jump_step_word:
  assumes "operation s = JUMP T"
  shows "(modifier s = None \<longrightarrow>
            visitCatalog T enc names v s
              = Inr (v\<lparr>bytecode := bytecode v @ [enc (SKIP T) 0 (Number 0)]\<rparr>))
       \<and> (\<forall>m target. modifier s = Some m \<and> operand s = Some target \<longrightarrow>
            visitCatalog T enc names v s
              = Inr (v\<lparr>bytecode :=
                       bytecode v @ [enc (JUMP T) m (getValue (addresses v) target)]\<rparr>))"
  using assms by (simp add: visitCatalog_def visitJumpInstruction_def emit_def getValueOf_def)

theorem jump_step_word_witness:
  "visitCatalog baliTypes fieldsOf [] emptyVisitor
      \<lparr>label = Some ''1.IfStatement'', operation = 0, modifier = None, operand = None\<rparr>
     = Inr (emptyVisitor\<lparr>bytecode := [(0, 0, Number 0)]\<rparr>)
   \<and> visitCatalog baliTypes fieldsOf [] (emptyVisitor\<lparr>addresses := [(''1.IfStatementDone'', 20)]\<rparr>)
      \<lparr>label = None, operation = 0, modifier = Some 3, operand = Some ''1.IfStatementDone''\<rparr>
     = Inr (emptyVisitor\<lparr>addresses := [(''1.IfStatementDone'', 20)],
              bytecode := [(0, 3, Number 20)]\<rparr>)"
  using jump_step_word [of
      "\<lparr>label = Some ''1.IfStatement'', operation = 0, modifier = None, operand = None\<rparr>"
      baliTypes fieldsOf "[]" emptyVisitor]
    jump_step_word [of
      "\<lparr>label = None, operation = 0, modifier = Some 3, operand = Some ''1.IfStatementDone''\<rparr>"
      baliTypes fieldsOf "[]" "emptyVisitor\<lparr>addresses := [(''1.IfStatementDone'', 20)]\<rparr>"]
  by (simp add: baliTypes_def fieldsOf_def emptyVisitor_def getValue_def)

text \<open>
  Claim C9: two steps with the same operation, modifier and operand are assembled alike,
  whatever their labels: from the same visitor they give the same bytecode, or fail alike.
\<close>

theorem label_has_no_influence:
  assumes "operation s1 = operation s2" and "modifier s1 = modifier s2"
    and "operand s1 = operand s2"
  shows "visitCatalog T enc names v s1 = visitCatalog T enc names v s2"
  by (simp only: assms visitCatalog_def visitJumpInstruction_def visitPushInstruction_def
      visitPopInstruction_def visitLoadInstruction_def visitStoreInstruction_def
      visitInvokeInstruction_def visitExecuteInstruction_def visitHandleInstruction_def)

theorem label_has_no_influence_witness:
  "visitCatalog baliTypes fieldsOf [] emptyVisitor
      \<lparr>label = Some ''1.ReturnStatement'', operation = 7, modifier = Some 1, operand = None\<rparr>
   = visitCatalog baliTypes fieldsOf [] emptyVisitor
      \<lparr>label = None, operation = 7, modifier = Some 1, operand = None\<rparr>
   \<and> visitCatalog baliTypes fieldsOf [] emptyVisitor
      \<lparr>label = None, operation = 7, modifier = Some 1, operand = None\<rparr>
   = Inr (emptyVisitor\<lparr>bytecode := [(7, 1, Undefined)]\<rparr>)"
  using label_has_no_influence [of
      "\<lparr>label = Some ''1.ReturnStatement'', operation = 7, modifier = Some 1, operand = None\<rparr>"
      "\<lparr>label = None, operation = 7, modifier = Some 1, operand = None\<rparr>"
      baliTypes fieldsOf "[]" emptyVisitor]
  by (simp add: visitCatalog_def visitHandleInstruction_def emit_def baliTypes_def fieldsOf_def
      emptyVisitor_def)

section \<open>Properties of the formatter\<close>

lemma fmt_jump:
  "operand s = Some x \<Longrightarrow> operation s = JUMP T \<Longrightarrow> modifier s = Some (ON_ANY T)
   \<Longrightarrow> fmt_visitCatalog T indentation source s
       = Inr (fmt_label indentation source s @ ''JUMP TO '' @ x)"
  by (simp add: fmt_visitCatalog_def fmt_visitJumpInstruction_def)

lemma fmt_execute:
  "EXECUTE T \<notin> {JUMP T, PUSH T, POP T, LOAD T, STORE T, INVOKE T}
   \<Longrightarrow> operand s = Some x \<Longrightarrow> operation s = EXECUTE T
   \<Longrightarrow> modifier s = Some (WITH_NOTHING T)
   \<Longrightarrow> fmt_visitCatalog T indentation source s
       = Inr (fmt_label indentation source s @ ''EXECUTE '' @ x)"
  by (simp add: fmt_visitCatalog_def fmt_visitExecuteInstruction_def)

lemma fmt_invoke:
  "INVOKE T \<notin> {JUMP T, PUSH T, POP T, LOAD T, STORE T}
   \<Longrightarrow> operand s = Some x \<Longrightarrow> operation s = INVOKE T
   \<Longrightarrow> modifier s = Some n
   \<Longrightarrow> fmt_visitCatalog T indentation source s
       = Inr (fmt_label indentation source s @ ''INVOKE '' @ x @
              (if n = 0 then [] else if n = 1 then '' WITH PARAMETER''
               else '' WITH '' @ decimal n @ '' PARAMETERS''))"
  by (simp add: fmt_visitCatalog_def fmt_visitInvokeInstruction_def)

lemma fmt_label_simps:
  "label s = None \<Longrightarrow> fmt_label indentation source s = source"
  "label s = Some l \<Longrightarrow> length source \<le> 4 * indentation \<Longrightarrow>
     fmt_label indentation source s = source @ l @ '':'' @ EOL @ indent indentation"
  "label s = Some l \<Longrightarrow> length source > 4 * indentation \<Longrightarrow>
     fmt_label indentation source s =
       source @ EOL @ indent indentation @ l @ '':'' @ EOL @ indent indentation"
  by (simp_all add: fmt_label_def appendNewline_def)

text \<open>
  Claim C8, as stated: an INVOKE is printed with \<open>WITH ARGUMENT\<close> for one argument and with
  \<open>WITH n ARGUMENTS\<close> for two or more. The formatter prints the words PARAMETER and
  PARAMETERS instead.
\<close>

theorem invoke_argument_counterexample:
  "fmt_visitCatalog baliTypes 0 []
      \<lparr>label = None, operation = 5, modifier = Some 1, operand = Some ''$factorial''\<rparr>
     = Inr ''INVOKE $factorial WITH PARAMETER''
   \<and> fmt_visitCatalog baliTypes 0 []
      \<lparr>label = None, operation = 5, modifier = Some 1, operand = Some ''$factorial''\<rparr>
     \<noteq> Inr ''INVOKE $factorial WITH ARGUMENT''
   \<and> fmt_visitCatalog baliTypes 0 []
      \<lparr>label = None, operation = 5, modifier = Some 2, operand = Some ''$sum''\<rparr>
     = Inr ''INVOKE $sum WITH 2 PARAMETERS''
   \<and> fmt_visitCatalog baliTypes 0 []
      \<lparr>label = None, operation = 5, modifier = Some 2, operand = Some ''$sum''\<rparr>
     \<noteq> Inr ''INVOKE $sum WITH 2 ARGUMENTS''"
  by (simp add: fmt_visitCatalog_def fmt_label_def fmt_visitInvokeInstruction_def baliTypes_def
      decimal.simps digit_def)

text \<open>
  Claim C8, amended: default modifiers are omitted from the canonical text. After the label
  of the step, if it has one, a JUMP with the modifier ON ANY is printed as \<open>JUMP TO L\<close>, an
  EXECUTE with the modifier WITH NOTHING as \<open>EXECUTE $p\<close>, an INVOKE with no WITH clause for
  zero arguments, with \<open>WITH PARAMETER\<close> for one and with \<open>WITH n PARAMETERS\<close> for two or more,
  \<open>n\<close> in decimal digits for a count below \<open>2 ^ 53\<close>. The text before the instruction is
  \<open>fmt_label\<close>: what was written so far, then the label on a line of its own, after a blank
  line unless it is the label of the first step. (The eight operation codes are distinct.)
\<close>

theorem default_modifiers_omitted:
  assumes d: "distinct [JUMP T, PUSH T, POP T, LOAD T, STORE T, INVOKE T, EXECUTE T, HANDLE T]"
    and x: "operand s = Some x"
  shows "(operation s = JUMP T \<and> modifier s = Some (ON_ANY T) \<longrightarrow>
            fmt_visitCatalog T indentation source s
              = Inr (fmt_label indentation source s @ ''JUMP TO '' @ x))
       \<and> (operation s = EXECUTE T \<and> modifier s = Some (WITH_NOTHING T) \<longrightarrow>
            fmt_visitCatalog T indentation source s
              = Inr (fmt_label indentation source s @ ''EXECUTE '' @ x))
       \<and> (operation s = INVOKE T \<and> modifier s = Some 0 \<longrightarrow>
            fmt_visitCatalog T indentation source s
              = Inr (fmt_label indentation source s @ ''INVOKE '' @ x))
       \<and> (operation s = INVOKE T \<and> modifier s = Some 1 \<longrightarrow>
            fmt_visitCatalog T indentation source s
              = Inr (fmt_label indentation source s @ ''INVOKE '' @ x @ '' WITH PARAMETER''))
       \<and> (\<forall>n. 2 \<le> n \<and> n < 2 ^ 53 \<and> operation s = INVOKE T \<and> modifier s = Some n \<longrightarrow>
            fmt_visitCatalog T indentation source s
              = Inr (fmt_label indentation source s @ ''INVOKE '' @ x
                     @ '' WITH '' @ decimal n @ '' PARAMETERS''))
       \<and> (label s = None \<longrightarrow> fmt_label indentation source s = source)
       \<and> (\<forall>l. label s = Some l \<longrightarrow>
            fmt_label indentation source s =
              (if length source > 4 * indentation then source @ EOL @ indent indentation
               else source) @ l @ '':'' @ EOL @ indent indentation)"
proof -
  from d have e: "EXECUTE T \<notin> {JUMP T, PUSH T, POP T, LOAD T, STORE T, INVOKE T}"
    and i: "INVOKE T \<notin> {JUMP T, PUSH T, POP T, LOAD T, STORE T}"
    by auto
  have l: "(label s = None \<longrightarrow> fmt_label indentation source s = source)
       \<and> (\<forall>l. label s = Some l \<longrightarrow>
            fmt_label indentation source s =
              (if length source > 4 * indentation then source @ EOL @ indent indentation
               else source) @ l @ '':'' @ EOL @ indent indentation)"
    by (simp add: fmt_label_def appendNewline_def)
  show ?thesis
    using fmt_jump [OF x, of T indentation source]
      fmt_execute [OF e x, of indentation source]
      fmt_invoke [OF i x, of _ indentation source] l
    by simp
qed

theorem default_modifiers_omitted_witness:
  "fmt_visitCatalog baliTypes 1 ''    SKIP INSTRUCTION''
      \<lparr>label = Some ''1.IfStatementDone'', operation = 0, modifier = Some 0,
        operand = Some ''1.WhileStatement''\<rparr>
     = Inr (''    SKIP INSTRUCTION'' @ EOL @ ''    1.IfStatementDone:'' @ EOL
            @ ''    JUMP TO 1.WhileStatement'')
   \<and> fmt_visitCatalog baliTypes 1 ''    ''
      \<lparr>label = None, operation = 0, modifier = Some 0, operand = Some ''1.IfStatementDone''\<rparr>
     = Inr ''    JUMP TO 1.IfStatementDone''
   \<and> fmt_visitCatalog baliTypes 1 ''    ''
      \<lparr>label = None, operation = 6, modifier = Some 0, operand = Some ''$function1''\<rparr>
     = Inr ''    EXECUTE $function1''
   \<and> fmt_visitCatalog baliTypes 1 ''    ''
      \<lparr>label = None, operation = 5, modifier = Some 0, operand = Some ''$random''\<rparr>
     = Inr ''    INVOKE $random''
   \<and> fmt_visitCatalog baliTypes 1 ''    ''
      \<lparr>label = None, operation = 5, modifier = Some 1, operand = Some ''$factorial''\<rparr>
     = Inr ''    INVOKE $factorial WITH PARAMETER''
   \<and> fmt_visitCatalog baliTypes 1 ''    ''
      \<lparr>label = Some ''1.EvaluateStatement'', operation = 5, modifier = Some 3,
        operand = Some ''$default''\<rparr>
     = Inr (''    1.EvaluateStatement:'' @ EOL @ ''    INVOKE $default WITH 3 PARAMETERS'')"
  using default_modifiers_omitted [of baliTypes
      "\<lparr>label = Some ''1.IfStatementDone'', operation = 0, modifier = Some 0,
        operand = Some ''1.WhileStatement''\<rparr>"
      "''1.WhileStatement''" 1 "''    SKIP INSTRUCTION''"]
    default_modifiers_omitted [of baliTypes
      "\<lparr>label = None, operation = 0, modifier = Some 0, operand = Some ''1.IfStatementDone''\<rparr>"
      "''1.IfStatementDone''" 1 "''    ''"]
    default_modifiers_omitted [of baliTypes
      "\<lparr>label = None, operation = 6, modifier = Some 0, operand = Some ''$function1''\<rparr>"
      "''$function1''" 1 "''    ''"]
    default_modifiers_omitted [of baliTypes
      "\<lparr>label = None, operation = 5, modifier = Some 0, operand = Some ''$random''\<rparr>"
      "''$random''" 1 "''    ''"]
    default_modifiers_omitted [of baliTypes
      "\<lparr>label = None, operation = 5, modifier = Some 1, operand = Some ''$factorial''\<rparr>"
      "''$factorial''" 1 "''    ''"]
    default_modifiers_omitted [of baliTypes
      "\<lparr>label = Some ''1.EvaluateStatement'', operation = 5, modifier = Some 3,
        operand = Some ''$default''\<rparr>"
      "''$default''" 1 "''    ''"]
  by (simp add: baliTypes_def decimal.simps digit_def indent_def EOL_def)

section \<open>Properties of the instruction builder\<close>

lemma insertInstruction_pending:
  "nextLabel b = Some l \<Longrightarrow> l \<noteq> [] \<Longrightarrow>
   insertInstruction i b =
     b\<lparr>addresses := AList.update l (address b) (addresses b),
       asmcode := (if asmcode b \<noteq> [] then asmcode b @ EOL else asmcode b)
                  @ l @ '':'' @ EOL @ i @ EOL,
       nextLabel := None, address := address b + 1\<rparr>"
  by (simp add: insertInstruction_def truthy_def str_def Let_def)

lemma insertLabel_pending:
  assumes "nextLabel b = Some l1" and "l1 \<noteq> []"
  shows "insertLabel (Some l2) b =
           b\<lparr>addresses := AList.update l1 (address b) (addresses b),
             asmcode := (if asmcode b \<noteq> [] then asmcode b @ EOL else asmcode b)
                        @ l1 @ '':'' @ EOL @ ''SKIP INSTRUCTION'' @ EOL,
             nextLabel := Some l2, address := address b + 1\<rparr>"
  using assms
  by (simp add: insertLabel_def insertSkipInstruction_def truthy_def insertInstruction_pending)

text \<open>
  Claim C6: when \<open>insertLabel\<close> is called while a label is pending, a SKIP INSTRUCTION is
  emitted first, under the pending label and at the current address, and the new label
  becomes the one pending label; the next instruction is then emitted under the new label at
  the following address. The addresses hold the earlier label at the address of the SKIP and
  the new label at the address of the next instruction, and their keys stay distinct, so
  that a label has one address. (A pending label is a non-empty \<open>nextLabel\<close>, as the
  condition of the source reads it.)
\<close>

theorem insertLabel_while_pending:
  assumes p: "nextLabel b = Some l1" and t1: "l1 \<noteq> []" and t2: "l2 \<noteq> []"
  shows "insertLabel (Some l2) b =
           b\<lparr>addresses := AList.update l1 (address b) (addresses b),
             asmcode := (if asmcode b \<noteq> [] then asmcode b @ EOL else asmcode b)
                        @ l1 @ '':'' @ EOL @ ''SKIP INSTRUCTION'' @ EOL,
             nextLabel := Some l2, address := address b + 1\<rparr>
       \<and> map_of (addresses (insertLabel (Some l2) b)) l1 = Some (address b)
       \<and> insertInstruction i (insertLabel (Some l2) b) =
           (insertLabel (Some l2) b)
             \<lparr>addresses := AList.update l2 (address b + 1) (addresses (insertLabel (Some l2) b)),
              asmcode := asmcode (insertLabel (Some l2) b) @ EOL @ l2 @ '':'' @ EOL @ i @ EOL,
              nextLabel := None, address := address b + 2\<rparr>
       \<and> map_of (addresses (insertInstruction i (insertLabel (Some l2) b))) l2
           = Some (address b + 1)
       \<and> (l1 \<noteq> l2 \<longrightarrow>
           map_of (addresses (insertInstruction i (insertLabel (Some l2) b))) l1
             = Some (address b))
       \<and> (distinct (map fst (addresses b)) \<longrightarrow>
           distinct (map fst (addresses (insertInstruction i (insertLabel (Some l2) b)))))"
proof -
  note a = insertLabel_pending [OF p t1, of l2]
  have n: "nextLabel (insertLabel (Some l2) b) = Some l2" by (simp add: a)
  have c: "insertInstruction i (insertLabel (Some l2) b) =
           (insertLabel (Some l2) b)
             \<lparr>addresses := AList.update l2 (address b + 1) (addresses (insertLabel (Some l2) b)),
              asmcode := asmcode (insertLabel (Some l2) b) @ EOL @ l2 @ '':'' @ EOL @ i @ EOL,
              nextLabel := None, address := address b + 2\<rparr>"
    by (simp add: insertInstruction_pending [OF n t2]) (simp add: a EOL_def)
  have 1: "map_of (addresses (insertLabel (Some l2) b)) l1 = Some (address b)"
    by (simp add: a update_conv')
  have 2: "map_of (addresses (insertInstruction i (insertLabel (Some l2) b))) l2
           = Some (address b + 1)"
    by (simp add: c update_conv')
  have 3: "l1 \<noteq> l2 \<longrightarrow>
         map_of (addresses (insertInstruction i (insertLabel (Some l2) b))) l1 = Some (address b)"
    by (simp add: c update_conv') (simp add: a update_conv')
  have 4: "distinct (map fst (addresses b)) \<longrightarrow>
         distinct (map fst (addresses (insertInstruction i (insertLabel (Some l2) b))))"
    by (simp add: c distinct_update) (simp add: a distinct_update)
  from a c 1 2 3 4 show ?thesis by blast
qed

theorem insertLabel_while_pending_witness:
  "asmcode (insertLabel (Some ''1.1.ConditionClause'')
      ((newCompiler [])\<lparr>nextLabel := Some ''1.IfStatement''\<rparr>))
     = ''1.IfStatement:'' @ EOL @ ''SKIP INSTRUCTION'' @ EOL
   \<and> nextLabel (insertLabel (Some ''1.1.ConditionClause'')
      ((newCompiler [])\<lparr>nextLabel := Some ''1.IfStatement''\<rparr>)) = Some ''1.1.ConditionClause''
   \<and> map_of (addresses (insertInstruction ''PUSH LITERAL `true`''
        (insertLabel (Some ''1.1.ConditionClause'')
          ((newCompiler [])\<lparr>nextLabel := Some ''1.IfStatement''\<rparr>)))) ''1.IfStatement''
     = Some 1
   \<and> map_of (addresses (insertInstruction ''PUSH LITERAL `true`''
        (insertLabel (Some ''1.1.ConditionClause'')
          ((newCompiler [])\<lparr>nextLabel := Some ''1.IfStatement''\<rparr>)))) ''1.1.ConditionClause''
     = Some 2"
proof -
  let ?b = "(newCompiler [])\<lparr>nextLabel := Some ''1.IfStatement''\<rparr>"
  have p: "nextLabel ?b = Some ''1.IfStatement''" by simp
  have t1: "''1.IfStatement'' \<noteq> []" and t2: "''1.1.ConditionClause'' \<noteq> []"
    and d: "''1.IfStatement'' \<noteq> ''1.1.ConditionClause''" by simp_all
  note w = insertLabel_while_pending [OF p t1 t2, of "''PUSH LITERAL `true`''"]
  from w have e: "insertLabel (Some ''1.1.ConditionClause'') ?b =
           ?b\<lparr>addresses := AList.update ''1.IfStatement'' (address ?b) (addresses ?b),
             asmcode := (if asmcode ?b \<noteq> [] then asmcode ?b @ EOL else asmcode ?b)
                        @ ''1.IfStatement'' @ '':'' @ EOL @ ''SKIP INSTRUCTION'' @ EOL,
             nextLabel := Some ''1.1.ConditionClause'', address := address ?b + 1\<rparr>"
    by (rule conjunct1)
  from w d have m1: "map_of (addresses (insertInstruction ''PUSH LITERAL `true`''
        (insertLabel (Some ''1.1.ConditionClause'') ?b))) ''1.IfStatement'' = Some (address ?b)"
    by blast
  from w have m2: "map_of (addresses (insertInstruction ''PUSH LITERAL `true`''
        (insertLabel (Some ''1.1.ConditionClause'') ?b))) ''1.1.ConditionClause''
           = Some (address ?b + 1)"
    by blast
  have a: "asmcode (insertLabel (Some ''1.1.ConditionClause'') ?b)
     = ''1.IfStatement:'' @ EOL @ ''SKIP INSTRUCTION'' @ EOL"
    by (simp only: e) (simp add: newCompiler_def)
  have n: "nextLabel (insertLabel (Some ''1.1.ConditionClause'') ?b)
     = Some ''1.1.ConditionClause''"
    by (simp only: e) simp
  from a n m1 m2 show ?thesis by (simp add: newCompiler_def)
qed

section \<open>Properties of break and continue\<close>

lemma find_drop_step:
  "i < length xs \<Longrightarrow> find P (drop i xs) = (if P (xs ! i) then Some (xs ! i) else find P (drop (Suc i) xs))"
  by (simp add: Cons_nth_drop_Suc [symmetric])

lemma breakLoop_find:
  "\<forall>p \<in> set (stack b). statement p \<noteq> None \<Longrightarrow>
   breakLoop i b =
     (case find isLoop (drop i (stack b)) of
        None \<Rightarrow> Inl NoEnclosingLoop
      | Some p \<Rightarrow>
          (case statement p of
             None \<Rightarrow> Inl TypeError
           | Some st \<Rightarrow> Inr (insertJumpInstruction (doneLabel st) None b)))"
proof (induction i b rule: breakLoop.induct)
  case (1 i b)
  show ?case
  proof (cases "i < length (stack b)")
    case False
    then show ?thesis by (simp add: breakLoop.simps [of i b])
  next
    case True
    with "1.prems" obtain st where st: "statement (stack b ! i) = Some st"
      by (meson nth_mem not_Some_eq)
    show ?thesis
    proof (cases "truthy (loopLabel st)")
      case True
      with \<open>i < length (stack b)\<close> st show ?thesis
        by (simp add: breakLoop.simps [of i b] find_drop_step isLoop_def)
    next
      case False
      with \<open>i < length (stack b)\<close> st "1.IH" [OF \<open>i < length (stack b)\<close> st False "1.prems"]
      show ?thesis
        by (simp add: breakLoop.simps [of i b] find_drop_step isLoop_def)
    qed
  qed
qed

lemma continueLoop_find:
  "\<forall>p \<in> set (stack b). statement p \<noteq> None \<Longrightarrow>
   continueLoop i b =
     (case find isLoop (drop i (stack b)) of
        None \<Rightarrow> Inl NoEnclosingLoop
      | Some p \<Rightarrow>
          (case statement p of
             None \<Rightarrow> Inl TypeError
           | Some st \<Rightarrow> Inr (insertJumpInstruction (loopLabel st) None b)))"
proof (induction i b rule: continueLoop.induct)
  case (1 i b)
  show ?case
  proof (cases "i < length (stack b)")
    case False
    then show ?thesis by (simp add: continueLoop.simps [of i b])
  next
    case True
    with "1.prems" obtain st where st: "statement (stack b ! i) = Some st"
      by (meson nth_mem not_Some_eq)
    show ?thesis
    proof (cases "truthy (loopLabel st)")
      case True
      with \<open>i < length (stack b)\<close> st show ?thesis
        by (simp add: continueLoop.simps [of i b] find_drop_step isLoop_def)
    next
      case False
      with \<open>i < length (stack b)\<close> st "1.IH" [OF \<open>i < length (stack b)\<close> st False "1.prems"]
      show ?thesis
        by (simp add: continueLoop.simps [of i b] find_drop_step isLoop_def)
    qed
  qed
qed

lemma insertInstruction_one:
  "address (insertInstruction i b) = address b + 1
   \<and> stack (insertInstruction i b) = stack b
   \<and> nextLabel (insertInstruction i b) = (if truthy (nextLabel b) then None else nextLabel b)
   \<and> (\<exists>pre. asmcode (insertInstruction i b) = asmcode b @ pre @ i @ EOL)"
  by (simp add: insertInstruction_def Let_def)

text \<open>
  Claim C7: a break or continue clause searches the procedure contexts from the innermost
  outwards for a statement with a loop label. When there is one, it emits one instruction,
  the unconditional jump to the done label (break) or to the loop label (continue) of the
  nearest such statement; when there is none, the compilation fails with the exception of no
  enclosing loop, and nothing is emitted. (Every procedure context on the stack has a current
  statement, as it has while a clause is compiled.)
\<close>

theorem break_continue_nearest_loop:
  assumes "\<forall>p \<in> set (stack b). statement p \<noteq> None"
  shows "visitBreakClause b =
           (case enclosingLoop b of
              None \<Rightarrow> Inl NoEnclosingLoop
            | Some st \<Rightarrow> Inr (insertInstruction (''JUMP TO '' @ str (doneLabel st)) b))
       \<and> visitContinueClause b =
           (case enclosingLoop b of
              None \<Rightarrow> Inl NoEnclosingLoop
            | Some st \<Rightarrow> Inr (insertInstruction (''JUMP TO '' @ str (loopLabel st)) b))
       \<and> (\<forall>i. address (insertInstruction i b) = address b + 1
              \<and> (\<exists>pre. asmcode (insertInstruction i b) = asmcode b @ pre @ i @ EOL))"
proof -
  have s: "\<And>p. find isLoop (stack b) = Some p \<Longrightarrow> statement p \<noteq> None"
    using assms by (metis find_Some_iff nth_mem)
  have 1: "visitBreakClause b =
           (case enclosingLoop b of
              None \<Rightarrow> Inl NoEnclosingLoop
            | Some st \<Rightarrow> Inr (insertInstruction (''JUMP TO '' @ str (doneLabel st)) b))"
    using breakLoop_find [OF assms, of 0] s
    by (auto simp add: visitBreakClause_def enclosingLoop_def insertJumpInstruction_def
        truthy_def split: option.splits)
  have 2: "visitContinueClause b =
           (case enclosingLoop b of
              None \<Rightarrow> Inl NoEnclosingLoop
            | Some st \<Rightarrow> Inr (insertInstruction (''JUMP TO '' @ str (loopLabel st)) b))"
    using continueLoop_find [OF assms, of 0] s
    by (auto simp add: visitContinueClause_def enclosingLoop_def insertJumpInstruction_def
        truthy_def split: option.splits)
  from 1 2 insertInstruction_one show ?thesis by blast
qed
theorem break_continue_nearest_loop_witness:
  "visitBreakClause exampleInLoop
     = Inr (insertInstruction ''JUMP TO 1.WhileStatementDone'' exampleInLoop)
   \<and> visitContinueClause exampleInLoop
     = Inr (insertInstruction ''JUMP TO 1.1.ConditionClause'' exampleInLoop)
   \<and> visitBreakClause exampleNoLoop = Inl NoEnclosingLoop
   \<and> visitContinueClause exampleNoLoop = Inl NoEnclosingLoop"
proof -
  have a: "\<forall>p \<in> set (stack exampleInLoop). statement p \<noteq> None"
    by (simp add: exampleInLoop_def)
  have b: "\<forall>p \<in> set (stack exampleNoLoop). statement p \<noteq> None"
    by (simp add: exampleNoLoop_def)
  have la: "enclosingLoop exampleInLoop
      = Some (exampleStatement WhileClause ''1.WhileStatement''
                (Some ''1.WhileStatementDone'') (Some ''1.1.ConditionClause''))"
    by (simp add: enclosingLoop_def exampleInLoop_def isLoop_def exampleStatement_def truthy_def)
  have lb: "enclosingLoop exampleNoLoop = None"
    by (simp add: enclosingLoop_def exampleNoLoop_def isLoop_def exampleStatement_def truthy_def)
  from break_continue_nearest_loop [OF a] break_continue_nearest_loop [OF b] show ?thesis
    by (simp add: la lb) (simp add: exampleStatement_def str_def)
qed

section \<open>Properties of the compiling visitor\<close>

text \<open>
  Claim C1 says that a procedure with zero statements is compiled into the two instructions
  \<open>LOAD VARIABLE $$result\<close> and \<open>HANDLE RESULT\<close>, with \<open>$$result\<close> and \<open>$target\<close> among the
  variables. The builder does not initialise \<open>requiresFinalization\<close>, and only the loop over
  the statements sets it: visiting the empty procedure leaves the builder as it was made, and
  \<open>getInstructions\<close> does not finalize it. The text that the visitor returns is empty, and
  \<open>$target\<close> is the only variable.
\<close>

theorem empty_procedure_not_finalized:
  "visit (Tree Procedure [] []) (newCompiler []) = Inr (newCompiler [])
   \<and> getInstructions (newCompiler []) = newCompiler []
   \<and> compileAssembly emptyType (sourceOf []) = Inr (newCompiler [])
   \<and> asmcode (newCompiler []) = []
   \<and> variables (newCompiler []) = [''$target'']
   \<and> requiresFinalization (newCompiler []) = None"
  by code_simp

text \<open>
  \<open>compileProcedure\<close> then hands the empty text to the parser: whatever the parser is, the
  instructions of the empty procedure are what it makes of the empty text, and when that is
  the empty list, the formatter fails on its missing first step.
\<close>

lemma empty_procedure_parses_empty_text:
  "compileProcedure parser T emptyType (sourceOf []) =
     (case parser [] of
        Inl e \<Rightarrow> Inl e
      | Inr steps \<Rightarrow>
          (case formatInstructions T 1 steps of
             Inl e \<Rightarrow> Inl e
           | Inr formatted \<Rightarrow>
               Inr \<lparr> literals = [], constants = [], parameters = [],
                     variables = [''$target''], procedures = [], addresses = [],
                     instructions = textOfAssembly formatted \<rparr>))"
proof -
  have "compileAssembly emptyType (sourceOf []) = Inr (newCompiler [])"
    by code_simp
  then show ?thesis
    by (simp add: compileProcedure_def newCompiler_def split: sum.splits)
qed

lemma empty_procedure_fails:
  "parser [] = Inr [] \<or> parser [] = Inl e
   \<Longrightarrow> isl (compileProcedure parser T emptyType (sourceOf []))"
  by (auto simp add: empty_procedure_parses_empty_text formatInstructions_def fmt_visitList_def)

text \<open>
  A procedure with one statement that does not return is finalized, as claim C1 says.
\<close>

lemma evaluate_procedure_finalized:
  "map_sum id asmcode (compileAssembly emptyType (sourceOf [Tree Statement [] [evaluateTrue]]))
     = Inr (unlines [''1.EvaluateStatement:'', ''PUSH LITERAL `true`'',
                     ''STORE VARIABLE $$result'', ''LOAD VARIABLE $$result'',
                     ''HANDLE RESULT''])"
  by code_simp

text \<open>
  Claim C3 says that the instructions of a statement with a handle clause contain, in this
  order, PUSH HANDLER, POP HANDLER, the definition of the handler label, the definition of
  the failure label followed by HANDLE EXCEPTION, and the definition of the success label.
  The success label is only left pending by \<open>insertLabel\<close>; it is defined when a later
  instruction is inserted. In the procedure whose only statement is
  \<open>true handle $e matching none with { return }\<close> the return clause of the handler block
  clears \<open>requiresFinalization\<close>, no instruction follows, and the assembly jumps to a success
  label that it never defines.
\<close>

theorem success_label_never_defined:
  "map_sum id asmcode (compileAssembly emptyType handledByReturn)
     = Inr (unlines
        [''1.EvaluateStatement:'',
         ''PUSH HANDLER 1.EvaluateStatementHandlers'',
         ''PUSH LITERAL `true`'',
         ''STORE VARIABLE $$result'',
         [],
         ''1.EvaluateStatementDone:'',
         ''POP HANDLER'',
         ''JUMP TO 1.EvaluateStatementSucceeded'',
         [],
         ''1.EvaluateStatementHandlers:'',
         ''SKIP INSTRUCTION'',
         [],
         ''1.1.HandleClause:'',
         ''STORE VARIABLE $e'',
         ''LOAD VARIABLE $e'',
         ''LOAD VARIABLE $e'',
         ''PUSH LITERAL `none`'',
         ''INVOKE $isMatchedBy WITH 2 PARAMETERS'',
         ''JUMP TO 1.EvaluateStatementFailed ON FALSE'',
         ''POP COMPONENT'',
         [],
         ''1.1.1.ReturnStatement:'',
         ''PUSH LITERAL `none`'',
         ''HANDLE RESULT'',
         [],
         ''1.1.HandleClauseDone:'',
         ''JUMP TO 1.EvaluateStatementSucceeded'',
         [],
         ''1.EvaluateStatementFailed:'',
         ''HANDLE EXCEPTION''])
   \<and> map_sum id nextLabel (compileAssembly emptyType handledByReturn)
     = Inr (Some ''1.EvaluateStatementSucceeded'')
   \<and> map_sum id (\<lambda>b. map_of (addresses b) ''1.EvaluateStatementSucceeded'')
       (compileAssembly emptyType handledByReturn)
     = Inr None"
  by code_simp

text \<open>
  When the handler block does not return, the procedure is finalized and the success label
  is defined at the first instruction of the finalization.
\<close>

lemma success_label_defined_by_finalization:
  "map_sum id (\<lambda>b. map_of (addresses b) ''1.EvaluateStatementSucceeded'')
       (compileAssembly emptyType handledByEvaluate)
     = Inr (Some 18)
   \<and> map_sum id (\<lambda>b. (address b, nextLabel b)) (compileAssembly emptyType handledByEvaluate)
     = Inr (20, None)"
  by code_simp

section \<open>What every method of the visitor keeps\<close>

subsection \<open>The relations are preorders\<close>

lemma grows_refl: "grows b b"
  by (simp add: grows_def)

lemma grows_trans:
  assumes ab: "grows a b" and bc: "grows b c"
  shows "grows a c"
proof -
  from ab obtain d where d: "asmcode b = asmcode a @ d" by (auto simp add: grows_def)
  from bc obtain e where e: "asmcode c = asmcode b @ e" by (auto simp add: grows_def)
  have 0: "parameters c = parameters a" using ab bc by (simp add: grows_def)
  have 1: "\<exists>x. asmcode c = asmcode a @ x" using d e by simp
  have 2: "(asmcode c = asmcode a \<and> nextLabel c = Some l)
          \<or> (\<exists>x. asmcode c =
                 asmcode a @ (if asmcode a \<noteq> [] then EOL else []) @ l @ '':'' @ EOL @ x)"
    if l: "nextLabel a = Some l" "l \<noteq> []" for l
  proof -
    from ab l consider
      (same) "asmcode b = asmcode a" "nextLabel b = Some l"
      | (defined) x where
          "asmcode b = asmcode a @ (if asmcode a \<noteq> [] then EOL else []) @ l @ '':'' @ EOL @ x"
      unfolding grows_def by blast
    then show ?thesis
    proof cases
      case same
      with bc l(2) show ?thesis unfolding grows_def by auto
    next
      case (defined x)
      with e have "asmcode c =
          asmcode a @ (if asmcode a \<noteq> [] then EOL else []) @ l @ '':'' @ EOL @ (x @ e)"
        by simp
      then show ?thesis by blast
    qed
  qed
  from 0 1 2 show ?thesis unfolding grows_def by blast
qed

lemma sameStatement_refl: "sameStatement s s"
  by (cases s) (auto simp add: sameStatement_def)

lemma sameStatement_trans: "sameStatement s t \<Longrightarrow> sameStatement t u \<Longrightarrow> sameStatement s u"
  unfolding sameStatement_def
  by (elim disjE exE conjE; simp) (metis statement_context.surjective statement_context.update_convs(5,11))

lemma sameFrames_refl: "sameFrames ps ps"
  by (simp add: sameFrames_def sameStatement_refl)

lemma sameFrames_trans: "sameFrames a b \<Longrightarrow> sameFrames b c \<Longrightarrow> sameFrames a c"
  unfolding sameFrames_def
  by (elim disjE conjE; simp) (blast intro: sameStatement_trans)

lemma steady_refl: "steady b b"
  by (simp add: steady_def grows_refl sameFrames_refl)

lemma steady_trans: "steady a b \<Longrightarrow> steady b c \<Longrightarrow> steady a c"
  unfolding steady_def by (blast intro: grows_trans sameFrames_trans)


subsection \<open>The combinators\<close>

lemma preserves_throw: "preserves R (throw e)"
  by (simp add: preserves_def throw_def)

lemma preserves_run: "(\<And>b. steady b (f b)) \<Longrightarrow> preserves steady (run f)"
  by (simp add: preserves_def run_def)

lemma preserves_seq: "(\<And>v. v \<in> set vs \<Longrightarrow> preserves steady v) \<Longrightarrow> preserves steady (seq vs)"
proof (induction vs)
  case Nil
  show ?case by (simp add: preserves_def steady_refl)
next
  case (Cons v vs)
  have v: "preserves steady v" and vs: "preserves steady (seq vs)"
    using Cons by simp_all
  show ?case
    unfolding preserves_def
  proof (intro allI impI)
    fix b b' assume "seq (v # vs) b = Inr b'"
    then obtain c where "v b = Inr c" "seq vs c = Inr b'"
      by (auto split: sum.splits)
    with v vs show "steady b b'"
      unfolding preserves_def by (blast intro: steady_trans)
  qed
qed

lemma preserves_reading:
  "(\<And>x. preserves steady (k x)) \<Longrightarrow> preserves steady (reading f k)"
  by (auto simp add: preserves_def reading_def split: sum.splits)

lemma getChild_mem: "getChild xs i = Some x \<Longrightarrow> x \<in> set xs"
  by (auto simp add: getChild_def Let_def split: if_splits)

lemma preserves_accept:
  "(\<And>v. v \<in> set vs \<Longrightarrow> preserves steady v) \<Longrightarrow> preserves steady (accept vs i)"
  by (auto simp add: accept_def preserves_throw dest: getChild_mem split: option.splits)

lemma steady_fields:
  "asmcode c = asmcode b \<Longrightarrow> nextLabel c = nextLabel b \<Longrightarrow> stack c = stack b
   \<Longrightarrow> parameters c = parameters b \<Longrightarrow> steady b c"
  by (simp add: steady_def grows_def sameFrames_refl)

lemma preserves_createTemporaryVariable:
  assumes "\<And>x. preserves steady (k x)"
  shows "preserves steady (createTemporaryVariable name k)"
  unfolding preserves_def createTemporaryVariable_def
proof (intro allI impI)
  fix b b'
  assume "k (''$$'' @ name @ ''-'' @ decimal (temporaryVariableCount b))
        (b\<lparr>temporaryVariableCount := temporaryVariableCount b + 1\<rparr>) = Inr b'"
  with assms have "steady (b\<lparr>temporaryVariableCount := temporaryVariableCount b + 1\<rparr>) b'"
    unfolding preserves_def by blast
  moreover have "steady b (b\<lparr>temporaryVariableCount := temporaryVariableCount b + 1\<rparr>)"
    by (simp add: steady_fields)
  ultimately show "steady b b'" by (blast intro: steady_trans)
qed

subsection \<open>The methods of the builder\<close>

lemma steady_insertInstruction: "steady b (insertInstruction i b)"
  by (auto simp add: steady_def grows_def sameFrames_refl insertInstruction_def Let_def
      truthy_def str_def)

lemma steady_left:
  "asmcode c = asmcode b \<Longrightarrow> nextLabel c = nextLabel b \<Longrightarrow> stack c = stack b
   \<Longrightarrow> steady c d \<Longrightarrow> parameters c = parameters b \<Longrightarrow> steady b d"
  by (simp add: steady_def grows_def)

lemma steady_right:
  "asmcode c = asmcode d \<Longrightarrow> nextLabel c = nextLabel d \<Longrightarrow> stack c = stack d
   \<Longrightarrow> steady b d \<Longrightarrow> parameters c = parameters d \<Longrightarrow> steady b c"
  by (simp add: steady_def grows_def)

lemma steady_insertLabel: "steady b (insertLabel l b)"
proof (cases "truthy (nextLabel b)")
  case True
  have "steady b (insertInstruction ''SKIP INSTRUCTION'' b)" by (rule steady_insertInstruction)
  moreover have "nextLabel (insertInstruction ''SKIP INSTRUCTION'' b) = None"
    using True by (simp add: insertInstruction_def Let_def)
  ultimately show ?thesis
    using True
    by (auto simp add: insertLabel_def insertSkipInstruction_def steady_def grows_def
        truthy_def split: option.splits)
next
  case False
  then show ?thesis
    by (auto simp add: insertLabel_def steady_def grows_def sameFrames_refl truthy_def
        split: option.splits)
qed

lemma steady_insertJumpInstruction: "steady b (insertJumpInstruction l c b)"
  by (simp add: insertJumpInstruction_def steady_insertInstruction)

lemma steady_insertPushInstruction: "steady b (insertPushInstruction t v b)"
  by (auto simp add: insertPushInstruction_def steady_insertInstruction
      intro: steady_left [OF _ _ _ steady_insertInstruction])

lemma steady_insertPopInstruction: "steady b (insertPopInstruction t b)"
  by (simp add: insertPopInstruction_def steady_insertInstruction)

lemma steady_insertLoadInstruction: "steady b (insertLoadInstruction t s b)"
  by (auto simp add: insertLoadInstruction_def Let_def
      intro: steady_right [OF _ _ _ steady_insertInstruction])

lemma steady_insertStoreInstruction: "steady b (insertStoreInstruction t s b)"
  by (auto simp add: insertStoreInstruction_def Let_def
      intro: steady_right [OF _ _ _ steady_insertInstruction])

lemma steady_insertInvokeInstruction: "steady b (insertInvokeInstruction f n b)"
  by (simp add: insertInvokeInstruction_def steady_insertInstruction)

lemma steady_insertExecuteInstruction: "steady b (insertExecuteInstruction p c b)"
  by (auto simp add: insertExecuteInstruction_def Let_def
      intro: steady_right [OF _ _ _ steady_insertInstruction])

lemma steady_insertHandleInstruction: "steady b (insertHandleInstruction c b)"
  by (simp add: insertHandleInstruction_def steady_insertInstruction)

lemma steady_setRequiresFinalization: "steady b (setRequiresFinalization f b)"
  by (simp add: setRequiresFinalization_def steady_fields)

lemma steady_id: "steady b (id b)"
  by (simp add: steady_refl)


lemmas steady_ops =
  steady_insertInstruction steady_insertLabel steady_insertJumpInstruction
  steady_insertPushInstruction steady_insertPopInstruction steady_insertLoadInstruction
  steady_insertStoreInstruction steady_insertInvokeInstruction
  steady_insertExecuteInstruction steady_insertHandleInstruction
  steady_setRequiresFinalization steady_id

lemmas preserves_intros =
  preserves_throw preserves_run preserves_seq preserves_reading preserves_accept
  preserves_createTemporaryVariable

subsection \<open>The methods of the visitor\<close>

lemma preserves_setLoopLabel: "preserves steady (setLoopLabel l)"
  by (auto simp add: preserves_def setLoopLabel_def steady_def grows_def sameFrames_def
      sameStatement_def split: list.splits option.splits)

lemma breakLoop_result:
  "breakLoop i b = Inr b' \<Longrightarrow> \<exists>l. b' = insertJumpInstruction l None b"
proof (induction i b rule: breakLoop.induct)
  case (1 i b)
  then show ?case
    by (subst (asm) (2) breakLoop.simps) (auto split: if_splits option.splits)
qed

lemma continueLoop_result:
  "continueLoop i b = Inr b' \<Longrightarrow> \<exists>l. b' = insertJumpInstruction l None b"
proof (induction i b rule: continueLoop.induct)
  case (1 i b)
  then show ?case
    by (subst (asm) (2) continueLoop.simps) (auto split: if_splits option.splits)
qed

lemma preserves_visitBreakClause: "preserves steady visitBreakClause"
  by (auto simp add: preserves_def visitBreakClause_def steady_insertJumpInstruction
      dest!: breakLoop_result)

lemma preserves_visitContinueClause: "preserves steady visitContinueClause"
  by (auto simp add: preserves_def visitContinueClause_def steady_insertJumpInstruction
      dest!: continueLoop_result)

lemma preserves_visitVariable: "preserves steady (visitVariable x)"
  by (auto simp add: preserves_def visitVariable_def Let_def steady_insertPushInstruction
      intro: steady_right [OF _ _ _ steady_insertLoadInstruction])

lemma preserves_setRecipient: "preserves steady (setRecipient r)"
  by (auto simp add: setRecipient_def split: option.splits
      intro!: preserves_intros steady_ops)


lemma preserves_simple_visitors:
  assumes ch: "\<And>v. v \<in> set vs \<Longrightarrow> preserves steady v"
  shows "preserves steady (visitArithmeticExpression operator vs)"
    and "preserves steady (visitComparisonExpression operator vs)"
    and "preserves steady (visitComplementExpression vs)"
    and "preserves steady (visitConcatenationExpression vs)"
    and "preserves steady (visitDefaultExpression vs)"
    and "preserves steady (visitDereferenceExpression vs)"
    and "preserves steady (visitExponentialExpression vs)"
    and "preserves steady (visitFactorialExpression vs)"
    and "preserves steady (visitInversionExpression operator vs)"
    and "preserves steady (visitLogicalExpression operator vs)"
    and "preserves steady (visitMagnitudeExpression vs)"
    and "preserves steady (visitSubcomponentExpression vs)"
    and "preserves steady (visitCommitClause vs)"
    and "preserves steady (visitDiscardClause vs)"
    and "preserves steady (visitPublishClause vs)"
    and "preserves steady (visitQueueClause vs)"
    and "preserves steady (visitSaveClause vs)"
    and "preserves steady (visitThrowClause vs)"
  using ch
  by (auto simp add: visitArithmeticExpression_def visitComparisonExpression_def
      visitComplementExpression_def visitConcatenationExpression_def
      visitDefaultExpression_def visitDereferenceExpression_def
      visitExponentialExpression_def visitFactorialExpression_def
      visitInversionExpression_def visitLogicalExpression_def visitMagnitudeExpression_def
      visitSubcomponentExpression_def visitCommitClause_def visitDiscardClause_def
      visitPublishClause_def visitQueueClause_def visitSaveClause_def visitThrowClause_def
      intro!: preserves_intros steady_ops)


lemma preserves_node_visitors:
  assumes ch: "\<And>v. v \<in> set vs \<Longrightarrow> preserves steady v"
  shows "preserves steady (visitCheckoutClause cs vs)"
    and "preserves steady (visitEvaluateClause cs vs)"
    and "preserves steady (visitWaitClause cs vs)"
    and "preserves steady (visitReturnClause cs vs)"
    and "preserves steady (visitMessageExpression cs vs)"
    and "preserves steady (visitHandleClause cs vs)"
    and "preserves steady (visitWhileClause vs)"
    and "preserves steady (visitWithClause cs vs)"
  using ch
  by (auto simp add: visitCheckoutClause_def visitEvaluateClause_def visitWaitClause_def
      visitReturnClause_def visitMessageExpression_def visitHandleClause_def
      visitWhileClause_def visitWithClause_def
      split: option.splits
      intro!: preserves_intros steady_ops preserves_setRecipient preserves_setLoopLabel)

lemma preserves_ifLoop:
  "(\<And>v. v \<in> set vs \<Longrightarrow> preserves steady v) \<Longrightarrow> preserves steady (ifLoop e h vs)"
  by (induction e h vs rule: ifLoop.induct)
     (auto intro!: preserves_intros steady_ops)

lemma preserves_selectLoop:
  "(\<And>v. v \<in> set vs \<Longrightarrow> preserves steady v) \<Longrightarrow> preserves steady (selectLoop e h x vs)"
  by (induction e h x vs rule: selectLoop.induct)
     (auto intro!: preserves_intros steady_ops)

lemma preserves_collectionLoop:
  "(\<And>v. v \<in> set vs \<Longrightarrow> preserves steady v) \<Longrightarrow> preserves steady (collectionLoop vs)"
  by (induction vs rule: collectionLoop.induct)
     (auto intro!: preserves_intros steady_ops)

lemma preserves_indicesLoop:
  "(\<And>v. v \<in> set vs \<Longrightarrow> preserves steady v) \<Longrightarrow> preserves steady (indicesLoop vs)"
  by (induction vs rule: indicesLoop.induct)
     (auto intro!: preserves_intros steady_ops)

lemma preserves_visitIfClause:
  assumes ch: "\<And>v. v \<in> set vs \<Longrightarrow> preserves steady v"
  shows "preserves steady (visitIfClause vs)"
proof -
  have bb: "v \<in> set (butlast vs) \<Longrightarrow> preserves steady v" for v
    using ch in_set_butlastD by fast
  have b: "preserves steady (ifLoop e h (butlast vs))" for e h
    by (rule preserves_ifLoop) (rule bb)
  have f: "preserves steady (ifLoop e h vs)" for e h
    by (rule preserves_ifLoop) (rule ch)
  have l: "odd (length vs) \<Longrightarrow> preserves steady (last vs)"
    by (rule ch) (auto intro: last_in_set)
  show ?thesis
    unfolding visitIfClause_def
    by (auto intro!: preserves_intros steady_ops b l f)
qed

lemma preserves_visitSelectClause:
  assumes ch: "\<And>v. v \<in> set vs \<Longrightarrow> preserves steady v"
  shows "preserves steady (visitSelectClause vs)"
proof -
  have d: "v \<in> set (drop 1 vs) \<Longrightarrow> preserves steady v" for v
    using ch in_set_dropD by fast
  have bb: "v \<in> set (butlast (drop 1 vs)) \<Longrightarrow> preserves steady v" for v
    using d in_set_butlastD by fast
  have b: "preserves steady (selectLoop e h x (butlast (drop 1 vs)))" for e h x
    by (rule preserves_selectLoop) (rule bb)
  have f: "preserves steady (selectLoop e h x (drop 1 vs))" for e h x
    by (rule preserves_selectLoop) (rule d)
  have l: "vs \<noteq> [] \<Longrightarrow> preserves steady (last vs)"
    by (rule ch) (auto intro: last_in_set)
  note b' = b [simplified] and f' = f [simplified]
  show ?thesis
    unfolding visitSelectClause_def using ch
    by (auto intro!: preserves_intros steady_ops b b' l f f')
qed

lemma preserves_component_visitors:
  shows "preserves steady k \<Longrightarrow> preserves steady v \<Longrightarrow> preserves steady (visitAssociation k v)"
    and "preserves steady c \<Longrightarrow> preserves steady (visitParameters c)"
    and "(\<And>p. ps = Some p \<Longrightarrow> preserves steady p) \<Longrightarrow> preserves steady (visitElement x ps)"
    and "(\<And>p. ps = Some p \<Longrightarrow> preserves steady p) \<Longrightarrow> preserves steady (visitSource x ps)"
    and "preserves steady a \<Longrightarrow> preserves steady z \<Longrightarrow> (\<And>p. ps = Some p \<Longrightarrow> preserves steady p)
         \<Longrightarrow> preserves steady (visitRange a z ps)"
    and "(\<And>p. ps = Some p \<Longrightarrow> preserves steady p)
         \<Longrightarrow> (\<And>v. v \<in> set vs \<Longrightarrow> preserves steady v)
         \<Longrightarrow> preserves steady (visitCollection t ps vs)"
    and "(\<And>v. v \<in> set vs \<Longrightarrow> preserves steady v)
         \<Longrightarrow> preserves steady (visitFunctionExpression cs vs)"
    and "(\<And>v. v \<in> set vs \<Longrightarrow> preserves steady v)
         \<Longrightarrow> preserves steady (visitIndices cs vs)"
  by (auto simp add: visitAssociation_def visitParameters_def visitElement_def visitSource_def
      visitRange_def visitCollection_def visitFunctionExpression_def visitIndices_def Let_def
      split: option.splits
      intro!: preserves_intros steady_ops preserves_collectionLoop preserves_indicesLoop)

subsection \<open>Procedures, statements and the walk of the tree\<close>

lemma nested_refl: "nested b b"
  by (simp add: nested_def grows_refl)

lemma nested_trans: "nested a b \<Longrightarrow> nested b c \<Longrightarrow> nested a c"
  unfolding nested_def by (auto intro: grows_trans)

lemma steady_nested: "steady a b \<Longrightarrow> nested a b"
  by (auto simp add: steady_def nested_def sameFrames_def)

lemma grows_fields:
  "asmcode c = asmcode b \<Longrightarrow> nextLabel c = nextLabel b \<Longrightarrow> parameters c = parameters b
   \<Longrightarrow> grows b c"
  by (simp add: grows_def)

lemma nested_incrementStatementCount:
  "incrementStatementCount b = Inr b' \<Longrightarrow> nested b b'"
  by (auto simp add: incrementStatementCount_def nested_def grows_fields split: list.splits)

lemma nested_procedureLoop:
  "(\<And>v. v \<in> set vs \<Longrightarrow> preserves steady v) \<Longrightarrow> preserves nested (procedureLoop vs)"
proof (induction vs)
  case Nil
  show ?case by (simp add: preserves_def nested_refl)
next
  case (Cons v vs)
  have v: "preserves steady v" and vs: "preserves nested (procedureLoop vs)"
    using Cons by simp_all
  show ?case
    unfolding preserves_def
  proof (intro allI impI)
    fix b b'
    assume r: "procedureLoop (v # vs) b = Inr b'"
    let ?b0 = "setRequiresFinalization True b"
    from r obtain b1 where b1: "v ?b0 = Inr b1"
      by (auto simp add: run_def split: sum.splits)
    from r b1 obtain b2 where b2: "incrementStatementCount b1 = Inr b2"
      by (auto simp add: run_def split: sum.splits)
    from r b1 b2 have b3: "procedureLoop vs b2 = Inr b'"
      by (auto simp add: run_def split: sum.splits)
    have "nested b ?b0"
      by (rule steady_nested) (rule steady_setRequiresFinalization)
    moreover have "nested ?b0 b1"
      using v b1 by (auto simp add: preserves_def intro: steady_nested)
    moreover have "nested b1 b2"
      using b2 by (rule nested_incrementStatementCount)
    moreover have "nested b2 b'"
      using vs b3 by (auto simp add: preserves_def)
    ultimately show "nested b b'"
      by (blast intro: nested_trans)
  qed
qed

lemma preserves_visitProcedure:
  assumes ch: "\<And>v. v \<in> set vs \<Longrightarrow> preserves steady v"
  shows "preserves steady (visitProcedure vs)"
  unfolding preserves_def
proof (intro allI impI)
  fix b b'
  assume r: "visitProcedure vs b = Inr b'"
  from r obtain b1 where b1: "pushProcedureContext (length vs) b = Inr b1"
    by (auto simp add: visitProcedure_def split: sum.splits)
  from r b1 obtain b2 where b2: "procedureLoop vs b1 = Inr b2"
    by (auto simp add: visitProcedure_def split: sum.splits)
  from r b1 b2 have b': "b' = popProcedureContext b2"
    by (auto simp add: visitProcedure_def run_def split: sum.splits)
  have n: "nested b1 b2"
    using nested_procedureLoop [OF ch] b2 by (auto simp add: preserves_def)
  have p: "asmcode b1 = asmcode b \<and> nextLabel b1 = nextLabel b
           \<and> parameters b1 = parameters b \<and> stack b1 \<noteq> []
           \<and> sameFrames (stack b) (tl (stack b1))"
    using b1
    by (auto simp add: pushProcedureContext_def sameFrames_def sameStatement_def
        split: list.splits option.splits)
  have "grows b b1" using p by (simp add: grows_fields)
  moreover have "grows b1 b2" using n by (simp add: nested_def)
  moreover have "grows b2 b'" using b' by (simp add: grows_fields popProcedureContext_def)
  ultimately have g: "grows b b'" by (blast intro: grows_trans)
  have "stack b' = tl (stack b1)"
    using n p b' by (auto simp add: nested_def popProcedureContext_def)
  with p g show "steady b b'" by (simp add: steady_def)
qed

lemma statement_shape:
  assumes r: "seq [push, reading get (\<lambda>st. seq [a st, b st, c, d st, pop])] x = Inr y"
    and a: "\<And>st. preserves steady (a st)"
    and b: "\<And>st. preserves steady (b st)"
    and c: "preserves steady c"
    and d: "\<And>st. preserves steady (d st)"
  shows "\<exists>x1 x2. push x = Inr x1 \<and> steady x1 x2 \<and> pop x2 = Inr y"
proof -
  from r obtain x1 where x1: "push x = Inr x1"
    by (auto split: sum.splits)
  from r x1 obtain st where k: "seq [a st, b st, c, d st, pop] x1 = Inr y"
    by (auto simp add: reading_def split: sum.splits)
  from k obtain x2 where x2: "seq [a st, b st, c, d st] x1 = Inr x2" and y: "pop x2 = Inr y"
    by (auto split: sum.splits)
  have "preserves steady (seq [a st, b st, c, d st])"
    by (rule preserves_seq) (auto simp add: a b c d)
  with x2 have "steady x1 x2" by (simp add: preserves_def)
  with x1 y show ?thesis by blast
qed

lemma preserves_visitStatement:
  assumes ch: "\<And>v. v \<in> set vs \<Longrightarrow> preserves steady v"
  shows "preserves steady (visitStatement cs vs)"
  unfolding preserves_def
proof (intro allI impI)
  fix b b'
  assume r: "visitStatement cs vs b = Inr b'"
  have d: "v \<in> set (drop 1 vs) \<Longrightarrow> preserves steady v" for v
    using ch in_set_dropD by fast
  note d' = d [simplified]
  have "\<exists>b1 b2. pushStatementContext cs b = Inr b1 \<and> steady b1 b2
          \<and> popStatementContext b2 = Inr b'"
    using r unfolding visitStatement_def
    by (rule statement_shape)
       (auto intro!: preserves_intros steady_ops dest!: in_set_dropD simp add: ch)
  then obtain b1 b2 where b1: "pushStatementContext cs b = Inr b1" and s: "steady b1 b2"
    and b2: "popStatementContext b2 = Inr b'"
    by blast
  from b1 have p: "asmcode b1 = asmcode b \<and> nextLabel b1 = nextLabel b
      \<and> parameters b1 = parameters b
      \<and> stack b \<noteq> [] \<and> stack b1 \<noteq> [] \<and> tl (stack b1) = tl (stack b)
      \<and> prefix (hd (stack b1)) = prefix (hd (stack b))
      \<and> statementNumber (hd (stack b1)) = statementNumber (hd (stack b))
      \<and> statementCount (hd (stack b1)) = statementCount (hd (stack b))"
    by (auto simp add: pushStatementContext_def Let_def split: list.splits option.splits)
  from b2 have q: "asmcode b' = asmcode b2 \<and> nextLabel b' = nextLabel b2
      \<and> parameters b' = parameters b2
      \<and> stack b2 \<noteq> [] \<and> stack b' \<noteq> [] \<and> tl (stack b') = tl (stack b2)
      \<and> prefix (hd (stack b')) = prefix (hd (stack b2))
      \<and> statementNumber (hd (stack b')) = statementNumber (hd (stack b2))
      \<and> statementCount (hd (stack b')) = statementCount (hd (stack b2))
      \<and> statement (hd (stack b')) = None"
    by (auto simp add: popStatementContext_def split: list.splits)
  have "grows b b1" using p by (simp add: grows_fields)
  moreover have "grows b1 b2" using s by (simp add: steady_def)
  moreover have "grows b2 b'" using q by (simp add: grows_fields)
  ultimately have g: "grows b b'" by (blast intro: grows_trans)
  from s have f: "sameFrames (stack b1) (stack b2)" by (simp add: steady_def)
  have "sameFrames (stack b) (stack b')"
    using p q f by (simp add: sameFrames_def sameStatement_def)
  with g show "steady b b'" by (simp add: steady_def)
qed

lemma preserves_seq_Nil: "preserves steady (seq [])"
  by (simp add: preserves_def steady_refl)

lemma preserves_visitTree:
  assumes ch: "\<And>v. v \<in> set vs \<Longrightarrow> preserves steady v"
  shows "preserves steady (visitTree t text cs vs)"
  unfolding visitTree_def
  by (cases t)
     (simp_all add: preserves_simple_visitors [OF ch] preserves_node_visitors [OF ch]
       preserves_visitIfClause [OF ch] preserves_visitSelectClause [OF ch]
       preserves_visitProcedure [OF ch] preserves_visitStatement [OF ch]
       preserves_visitBreakClause preserves_visitContinueClause preserves_visitVariable
       preserves_throw preserves_accept [OF ch] preserves_seq_Nil)


lemma preserves_visit: "preserves steady (visit n)"
proof (induction n rule: visit.induct)
  case (1 t x cs)
  show ?case
  proof (cases "t = FunctionExpression")
    case True
    have h: "preserves steady v"
      if "v \<in> set (map (\<lambda>p. visit (argument p)) (itemsOfChild cs 2))" for v
      using that 1(1) [OF True] by auto
    have "preserves steady
            (visitFunctionExpression cs (map (\<lambda>p. visit (argument p)) (itemsOfChild cs 2)))"
      by (rule preserves_component_visitors) (rule h)
    then show ?thesis
      using True by simp
  next
    case f: False
    show ?thesis
    proof (cases "t = Indices")
      case True
      have h: "preserves steady v" if "v \<in> set (map visit (itemsOfChild cs 1))" for v
        using that 1(2) [OF f True] by auto
      have "preserves steady (visitIndices cs (map visit (itemsOfChild cs 1)))"
        by (rule preserves_component_visitors) (rule h)
      then show ?thesis
        using f True by simp
    next
      case False
      have h: "preserves steady v" if "v \<in> set (map visit cs)" for v
        using that 1(3) [OF f False] by auto
      have "preserves steady (visitTree t x cs (map visit cs))"
        by (rule preserves_visitTree) (rule h)
      then show ?thesis
        using f False by simp
    qed
  qed
next
  case (2 t x ps)
  have "preserves steady (visitElement x (map_option visit ps))"
    using 2 by (intro preserves_component_visitors) auto
  then show ?case by simp
next
  case (3 t ps items)
  have "preserves steady (visitCollection t (map_option visit ps) (map visit items))"
    using 3 by (intro preserves_component_visitors) auto
  then show ?case by simp
next
  case (4 start finish ps)
  have "preserves steady (visitRange (visit start) (visit finish) (map_option visit ps))"
    using 4 by (intro preserves_component_visitors) auto
  then show ?case by simp
next
  case (5 key val)
  have "preserves steady (visitAssociation (visit key) (visit val))"
    using 5 by (intro preserves_component_visitors) auto
  then show ?case by simp
next
  case (6 collection)
  have "preserves steady (visitParameters (visit collection))"
    using 6 by (intro preserves_component_visitors) auto
  then show ?case by simp
next
  case (7 x procedure ps)
  have "preserves steady (visitSource x (map_option visit ps))"
    using 7 by (intro preserves_component_visitors) auto
  then show ?case by simp
qed

subsection \<open>What the builder writes\<close>

lemma seq_consE:
  assumes "seq (v # vs) b = Inr b'"
  obtains c where "v b = Inr c" and "seq vs c = Inr b'"
  using assms by (auto split: sum.splits)

lemma seq_nilE:
  assumes "seq [] b = Inr b'"
  obtains "b' = b"
  using assms by simp

lemma readingE:
  assumes "reading f k b = Inr b'"
  obtains x where "f b = Inr x" and "k x b = Inr b'"
  using assms by (auto simp add: reading_def split: sum.splits)

lemma runE:
  assumes "run f b = Inr b'"
  obtains "b' = f b"
  using assms by (simp add: run_def)

lemma insertInstruction_fields:
  "stack (insertInstruction i b) = stack b"
  "\<not> truthy (nextLabel (insertInstruction i b))"
  "\<exists>d. asmcode (insertInstruction i b) = asmcode b @ d @ i @ EOL"
  by (auto simp add: insertInstruction_def Let_def truthy_def)

lemma insertInstruction_labelled:
  "nextLabel b = Some l \<Longrightarrow> l \<noteq> [] \<Longrightarrow> asmcode b \<noteq> [] \<Longrightarrow>
   asmcode (insertInstruction i b) = asmcode b @ EOL @ l @ '':'' @ EOL @ i @ EOL"
  by (simp add: insertInstruction_def Let_def truthy_def str_def)

lemma insertLabel_fields:
  "stack (insertLabel l b) = stack b"
  "nextLabel (insertLabel l b) = l"
  "\<exists>d. asmcode (insertLabel l b) = asmcode b @ d"
  by (auto simp add: insertLabel_def insertSkipInstruction_def insertInstruction_def Let_def)

lemma insertLabel_unlabelled:
  "\<not> truthy (nextLabel b) \<Longrightarrow> asmcode (insertLabel l b) = asmcode b"
  by (simp add: insertLabel_def)

lemma insertLabel_labelled:
  "nextLabel b = Some h \<Longrightarrow> h \<noteq> [] \<Longrightarrow> asmcode b \<noteq> [] \<Longrightarrow>
   asmcode (insertLabel l b) =
     asmcode b @ EOL @ h @ '':'' @ EOL @ ''SKIP INSTRUCTION'' @ EOL"
  by (simp add: insertLabel_def insertSkipInstruction_def insertInstruction_labelled truthy_def)

lemma getStatementContext_stack:
  "stack c = stack b \<Longrightarrow> getStatementContext c = getStatementContext b"
  by (simp add: getStatementContext_def)

lemma sameStatement_fields:
  assumes "sameStatement (Some st) (Some st')"
  shows "clauseCount st' = clauseCount st" and "handleClauses st' = handleClauses st"
proof -
  from assms
  have e: "st' = st\<lparr>clauseNumber := clauseNumber st', loopLabel := loopLabel st'\<rparr>"
    by (simp add: sameStatement_def)
  from arg_cong [OF e, of clauseCount] show "clauseCount st' = clauseCount st" by simp
  from arg_cong [OF e, of handleClauses] show "handleClauses st' = handleClauses st" by simp
qed

lemma steady_statement:
  assumes s: "steady x y" and g: "getStatementContext x = Inr st"
    and g': "getStatementContext y = Inr st'"
  shows "clauseCount st' = clauseCount st" and "handleClauses st' = handleClauses st"
proof -
  from s g g' have "sameStatement (Some st) (Some st')"
    by (auto simp add: steady_def sameFrames_def getStatementContext_def
        split: list.splits option.splits)
  then show "clauseCount st' = clauseCount st" and "handleClauses st' = handleClauses st"
    by (rule sameStatement_fields)+
qed

lemma steady_hasClauses:
  "steady x y \<Longrightarrow> getStatementContext x = Inr st \<Longrightarrow> hasClauses y = Inr c
   \<Longrightarrow> c = (clauseCount st > 0)"
  by (auto simp add: hasClauses_def split: sum.splits dest: steady_statement)

lemma steady_hasHandlers:
  "steady x y \<Longrightarrow> getStatementContext x = Inr st \<Longrightarrow> hasHandlers y = Inr h
   \<Longrightarrow> h = (length (handleClauses st) > 0)"
  by (auto simp add: hasHandlers_def split: sum.splits dest: steady_statement)

subsection \<open>A statement with handle clauses\<close>

text \<open>
  The control flow of \<open>visitStatement\<close>, with the methods that it calls as parameters: which
  states the main clause, the handle clauses and \<open>popStatementContext\<close> are run from.
\<close>

lemma handled_statement_shape:
  assumes r: "seq [push, reading get (\<lambda>st. seq
      [run (l1 st),
       reading hh (\<lambda>h. if h then run (p1 st) else seq []),
       m,
       reading hc (\<lambda>c. if c then seq
         [run (l2 st),
          reading hh (\<lambda>h. if h then seq
            [run p2, run (j st), run (l3 st), hs, run (l4 st), run p3, run (l5 st)]
           else seq [])]
        else seq []),
       pop])] x = Inr y"
  shows "\<exists>x1 st h x4 c. push x = Inr x1 \<and> get x1 = Inr st \<and> hh (l1 st x1) = Inr h
     \<and> m ((if h then p1 st else id) (l1 st x1)) = Inr x4 \<and> hc x4 = Inr c
     \<and> (if c then
          (\<exists>h2. hh (l2 st x4) = Inr h2
             \<and> (if h2 then
                  (\<exists>x9. hs (l3 st (j st (p2 (l2 st x4)))) = Inr x9
                     \<and> pop (l5 st (p3 (l4 st x9))) = Inr y)
                else pop (l2 st x4) = Inr y))
        else pop x4 = Inr y)"
proof -
  from r obtain x1 where x1: "push x = Inr x1"
    by (auto split: sum.splits)
  from r x1 obtain st where st: "get x1 = Inr st"
    by (auto simp add: reading_def split: sum.splits)
  from r x1 st obtain h where h: "hh (l1 st x1) = Inr h"
    by (auto simp add: reading_def run_def split: sum.splits)
  let ?x3 = "(if h then p1 st else id) (l1 st x1)"
  from r x1 st h obtain x4 where x4: "m ?x3 = Inr x4"
    by (auto simp add: reading_def run_def split: sum.splits if_splits)
  from r x1 st h x4 obtain c where c: "hc x4 = Inr c"
    by (auto simp add: reading_def run_def split: sum.splits if_splits)
  have k: "(if c then
          (\<exists>h2. hh (l2 st x4) = Inr h2
             \<and> (if h2 then
                  (\<exists>x9. hs (l3 st (j st (p2 (l2 st x4)))) = Inr x9
                     \<and> pop (l5 st (p3 (l4 st x9))) = Inr y)
                else pop (l2 st x4) = Inr y))
        else pop x4 = Inr y)"
  proof (cases h)
    case True
    with r x1 st h x4 c show ?thesis
      by (auto simp add: reading_def run_def split: sum.splits if_splits)
  next
    case False
    with r x1 st h x4 c show ?thesis
      by (auto simp add: reading_def run_def split: sum.splits if_splits)
  qed
  from x1 st h x4 c k show ?thesis by blast
qed


lemma pushStatementContext_fields:
  assumes p: "pushStatementContext cs b = Inr b1" and g: "getStatementContext b1 = Inr st"
  shows "asmcode b1 = asmcode b" and "nextLabel b1 = nextLabel b"
    and "handleClauses st = drop 1 cs" and "length (drop 1 cs) \<le> clauseCount st"
    and "1 < length cs \<Longrightarrow>
           (\<exists>H F S. handlerLabel st = Some H \<and> failureLabel st = Some F
              \<and> successLabel st = Some S \<and> H \<noteq> [] \<and> F \<noteq> [] \<and> S \<noteq> [])"
  using p g
  by (auto simp add: pushStatementContext_def getStatementContext_def Let_def
      split: option.splits list.splits)

lemma hasHandlers_stack: "stack c = stack b \<Longrightarrow> hasHandlers c = hasHandlers b"
  by (simp add: hasHandlers_def getStatementContext_def)

lemma grows_code: "grows b c \<Longrightarrow> \<exists>d. asmcode c = asmcode b @ d"
  by (simp add: grows_def)

lemma grows_pending:
  assumes "grows b c" and "nextLabel b = Some l" and "l \<noteq> []" and "asmcode b \<noteq> []"
  shows "(asmcode c = asmcode b \<and> nextLabel c = Some l)
       \<or> (\<exists>d. asmcode c = asmcode b @ EOL @ l @ '':'' @ EOL @ d)"
  using assms by (auto simp add: grows_def)

lemma handled_statement:
  assumes r: "visitStatement cs vs b = Inr b'"
    and n: "1 < length cs"
    and ch: "\<And>v. v \<in> set vs \<Longrightarrow> preserves steady v"
  shows "\<exists>b1 st H F S.
     pushStatementContext cs b = Inr b1 \<and> getStatementContext b1 = Inr st
     \<and> handlerLabel st = Some H \<and> failureLabel st = Some F \<and> successLabel st = Some S
     \<and> (\<exists>d0 d1 d2 d3. asmcode b' =
            asmcode b @ d0 @ ''PUSH HANDLER '' @ H @ d1 @ ''POP HANDLER'' @ d2
            @ H @ '':'' @ d3 @ F @ '':'' @ EOL @ ''HANDLE EXCEPTION'' @ EOL)
     \<and> nextLabel b' = Some S"
proof -
  from handled_statement_shape [OF r [unfolded visitStatement_def]]
  obtain b1 st h b4 c where
    b1: "pushStatementContext cs b = Inr b1" and st: "getStatementContext b1 = Inr st"
    and h: "hasHandlers (insertLabel (Some (startLabel st)) b1) = Inr h"
    and b4: "accept vs 1
               ((if h then insertPushInstruction ''HANDLER'' (str (handlerLabel st)) else id)
                  (insertLabel (Some (startLabel st)) b1)) = Inr b4"
    and c: "hasClauses b4 = Inr c"
    and k: "if c then
              (\<exists>h2. hasHandlers (insertLabel (doneLabel st) b4) = Inr h2
                 \<and> (if h2 then
                      (\<exists>b9. seq (drop 1 vs)
                               (insertLabel (handlerLabel st)
                                 (insertJumpInstruction (successLabel st) None
                                   (insertPopInstruction ''HANDLER''
                                     (insertLabel (doneLabel st) b4)))) = Inr b9
                         \<and> popStatementContext
                               (insertLabel (successLabel st)
                                 (insertHandleInstruction ''EXCEPTION''
                                   (insertLabel (failureLabel st) b9))) = Inr b')
                    else popStatementContext (insertLabel (doneLabel st) b4) = Inr b'))
            else popStatementContext b4 = Inr b'"
    by blast
  note f = pushStatementContext_fields [OF b1 st]
  from f(5) [OF n] obtain H F S where
    H: "handlerLabel st = Some H" and F: "failureLabel st = Some F"
    and S: "successLabel st = Some S" and ne: "H \<noteq> []" "F \<noteq> []" "S \<noteq> []"
    by blast
  have hc: "0 < length (handleClauses st)" and cc: "0 < clauseCount st"
    using f(3,4) n by simp_all
  define b2 where "b2 = insertLabel (Some (startLabel st)) b1"
  define b3 where "b3 = insertInstruction (''PUSH HANDLER '' @ H) b2"
  have s2: "stack b2 = stack b1"
    by (simp add: b2_def insertLabel_fields)
  have s3: "stack b3 = stack b1"
    by (simp add: b3_def insertInstruction_fields s2)
  have g3: "getStatementContext b3 = Inr st"
    using st by (simp add: getStatementContext_stack [OF s3])
  have "hasHandlers b2 = Inr True"
    unfolding hasHandlers_stack [OF s2] using st hc by (simp add: hasHandlers_def)
  with h have h': "h" by (simp add: b2_def)
  from b4 h' have m: "accept vs 1 b3 = Inr b4"
    by (simp add: b2_def b3_def insertPushInstruction_def H str_def)
  have "preserves steady (accept vs 1)"
    by (rule preserves_accept) (rule ch)
  with m have s34: "steady b3 b4" by (simp add: preserves_def)
  from steady_hasClauses [OF s34 g3 c] cc have c': "c" by simp
  define b5 where "b5 = insertLabel (doneLabel st) b4"
  have s35: "steady b3 b5"
    unfolding b5_def by (rule steady_trans [OF s34 steady_insertLabel])
  from k c' obtain h2 where h2: "hasHandlers b5 = Inr h2"
    and k2: "if h2 then
               (\<exists>b9. seq (drop 1 vs)
                        (insertLabel (handlerLabel st)
                          (insertJumpInstruction (successLabel st) None
                            (insertPopInstruction ''HANDLER'' b5))) = Inr b9
                  \<and> popStatementContext
                        (insertLabel (successLabel st)
                          (insertHandleInstruction ''EXCEPTION''
                            (insertLabel (failureLabel st) b9))) = Inr b')
             else popStatementContext b5 = Inr b'"
    unfolding b5_def by auto
  from steady_hasHandlers [OF s35 g3 h2] hc have h2': "h2" by simp
  define b6 where "b6 = insertInstruction ''POP HANDLER'' b5"
  define b7 where "b7 = insertInstruction (''JUMP TO '' @ S) b6"
  define b8 where "b8 = insertLabel (Some H) b7"
  from k2 h2' obtain b9 where b9: "seq (drop 1 vs) b8 = Inr b9"
    and e: "popStatementContext
              (insertLabel (Some S) (insertInstruction ''HANDLE EXCEPTION''
                 (insertLabel (Some F) b9))) = Inr b'"
    by (auto simp add: b6_def b7_def b8_def H F S insertPopInstruction_def
        insertJumpInstruction_def insertHandleInstruction_def str_def truthy_def)
  define b10 where "b10 = insertLabel (Some F) b9"
  define b11 where "b11 = insertInstruction ''HANDLE EXCEPTION'' b10"
  define b12 where "b12 = insertLabel (Some S) b11"
  from e have e': "asmcode b' = asmcode b12" "nextLabel b' = nextLabel b12"
    by (auto simp add: b10_def b11_def b12_def popStatementContext_def split: list.splits)
  obtain d0 where a3: "asmcode b3 = asmcode b @ d0 @ ''PUSH HANDLER '' @ H @ EOL"
  proof -
    obtain x where "asmcode b2 = asmcode b1 @ x"
      unfolding b2_def using insertLabel_fields(3) by blast
    moreover obtain y where "asmcode b3 = asmcode b2 @ y @ (''PUSH HANDLER '' @ H) @ EOL"
      unfolding b3_def using insertInstruction_fields(3) by blast
    ultimately have "asmcode b3 = asmcode b @ (x @ y) @ ''PUSH HANDLER '' @ H @ EOL"
      by (simp add: f(1))
    then show ?thesis by (rule that)
  qed
  obtain e4 where a4: "asmcode b4 = asmcode b3 @ e4"
    using s34 grows_code by (auto simp add: steady_def)
  obtain e6 where a6: "asmcode b6 = asmcode b4 @ e6 @ ''POP HANDLER'' @ EOL"
  proof -
    obtain x where "asmcode b5 = asmcode b4 @ x"
      unfolding b5_def using insertLabel_fields(3) by blast
    moreover obtain y where "asmcode b6 = asmcode b5 @ y @ ''POP HANDLER'' @ EOL"
      unfolding b6_def using insertInstruction_fields(3) by blast
    ultimately have "asmcode b6 = asmcode b4 @ (x @ y) @ ''POP HANDLER'' @ EOL"
      by simp
    then show ?thesis by (rule that)
  qed
  obtain e7 where a7: "asmcode b7 = asmcode b6 @ e7"
  proof -
    obtain y where "asmcode b7 = asmcode b6 @ y @ (''JUMP TO '' @ S) @ EOL"
      unfolding b7_def using insertInstruction_fields(3) by blast
    then have "asmcode b7 = asmcode b6 @ (y @ ''JUMP TO '' @ S @ EOL)" by simp
    then show ?thesis by (rule that)
  qed
  have n7: "\<not> truthy (nextLabel b7)"
    unfolding b7_def by (rule insertInstruction_fields)
  have a8: "asmcode b8 = asmcode b7" and n8: "nextLabel b8 = Some H"
    unfolding b8_def using n7 by (simp_all add: insertLabel_unlabelled insertLabel_fields)
  have ne8: "asmcode b8 \<noteq> []"
    by (simp add: a8 a7 a6 a4 a3)
  have dd: "preserves steady v" if "v \<in> set (drop 1 vs)" for v
    using that ch in_set_dropD by fast
  have "preserves steady (seq (drop 1 vs))"
    by (rule preserves_seq) (rule dd)
  with b9 have "grows b8 b9" by (simp add: preserves_def steady_def)
  from grows_pending [OF this n8 ne(1) ne8]
  obtain e10 where a10: "asmcode b10 = asmcode b8 @ EOL @ H @ '':'' @ e10"
  proof
    assume p: "asmcode b9 = asmcode b8 \<and> nextLabel b9 = Some H"
    then have "asmcode b10 =
        asmcode b8 @ EOL @ H @ '':'' @ (EOL @ ''SKIP INSTRUCTION'' @ EOL)"
      unfolding b10_def using ne(1) ne8 by (simp add: insertLabel_labelled)
    then show ?thesis by (rule that)
  next
    assume "\<exists>d. asmcode b9 = asmcode b8 @ EOL @ H @ '':'' @ EOL @ d"
    then obtain d where d: "asmcode b9 = asmcode b8 @ EOL @ H @ '':'' @ EOL @ d" ..
    obtain x where "asmcode b10 = asmcode b9 @ x"
      unfolding b10_def using insertLabel_fields(3) by blast
    with d have "asmcode b10 = asmcode b8 @ EOL @ H @ '':'' @ (EOL @ d @ x)" by simp
    then show ?thesis by (rule that)
  qed
  have n10: "nextLabel b10 = Some F"
    unfolding b10_def by (rule insertLabel_fields)
  have ne10: "asmcode b10 \<noteq> []"
    using ne8 by (simp add: a10)
  have a11: "asmcode b11 = asmcode b10 @ EOL @ F @ '':'' @ EOL @ ''HANDLE EXCEPTION'' @ EOL"
    unfolding b11_def using n10 ne(2) ne10 by (rule insertInstruction_labelled)
  have n11: "\<not> truthy (nextLabel b11)"
    unfolding b11_def by (rule insertInstruction_fields)
  have a12: "asmcode b12 = asmcode b11" and n12: "nextLabel b12 = Some S"
    unfolding b12_def using n11 by (simp_all add: insertLabel_unlabelled insertLabel_fields)
  have "asmcode b' =
      asmcode b @ d0 @ ''PUSH HANDLER '' @ H @ (EOL @ e4 @ e6) @ ''POP HANDLER''
      @ (EOL @ e7 @ EOL) @ H @ '':'' @ (e10 @ EOL) @ F @ '':'' @ EOL @ ''HANDLE EXCEPTION'' @ EOL"
    by (simp add: e' a12 a11 a10 a8 a7 a6 a4 a3)
  then have "\<exists>d0 d1 d2 d3. asmcode b' =
      asmcode b @ d0 @ ''PUSH HANDLER '' @ H @ d1 @ ''POP HANDLER'' @ d2
      @ H @ '':'' @ d3 @ F @ '':'' @ EOL @ ''HANDLE EXCEPTION'' @ EOL"
    by blast
  with b1 st H F S e'(2) n12 show ?thesis by auto
qed

text \<open>
  Whenever a statement with at least one handle clause is compiled, the text written for it
  contains, in this order, the PUSH HANDLER of its handler label, the POP HANDLER, the
  definition of the handler label, and the definition of the failure label followed by
  HANDLE EXCEPTION, with which it ends. The success label is not written: it is left
  pending, to be written with the next instruction, if there is one.
\<close>

lemma statement_with_handle_clauses:
  assumes r: "visit (Tree Statement x cs) b = Inr b'"
    and n: "1 < length cs"
  shows "\<exists>b1 st H F S.
     pushStatementContext cs b = Inr b1 \<and> getStatementContext b1 = Inr st
     \<and> handlerLabel st = Some H \<and> failureLabel st = Some F \<and> successLabel st = Some S
     \<and> (\<exists>d0 d1 d2 d3. asmcode b' =
            asmcode b @ d0 @ ''PUSH HANDLER '' @ H @ d1 @ ''POP HANDLER'' @ d2
            @ H @ '':'' @ d3 @ F @ '':'' @ EOL @ ''HANDLE EXCEPTION'' @ EOL)
     \<and> nextLabel b' = Some S"
proof -
  from r have "visitStatement cs (map visit cs) b = Inr b'"
    by (simp add: visitTree_def)
  moreover have "preserves steady v" if "v \<in> set (map visit cs)" for v
    using that preserves_visit by auto
  ultimately show ?thesis
    using n by (intro handled_statement)
qed

subsection \<open>The finalization\<close>

text \<open>
  \<open>getInstructions\<close> appends the two instructions of \<open>finalize\<close> exactly when the flag has
  been set to true, and a procedure with no statement leaves the flag and the assembly as
  they were.
\<close>

lemma getInstructions_finalizes:
  assumes "requiresFinalization b = Some True"
  shows "\<exists>d. asmcode (getInstructions b) =
           asmcode b @ d @ ''LOAD VARIABLE $$result'' @ EOL @ ''HANDLE RESULT'' @ EOL"
    and "''$$result'' \<in> set (variables (getInstructions b))"
  using assms
  by (auto simp add: getInstructions_def finalize_def insertHandleInstruction_def
      insertLoadInstruction_def insertInstruction_def Let_def addItem_def truthy_def)

lemma getInstructions_unchanged:
  "requiresFinalization b \<noteq> Some True \<Longrightarrow> getInstructions b = b"
  by (simp add: getInstructions_def)

lemma visitProcedure_empty:
  assumes "visitProcedure [] b = Inr b'"
  shows "asmcode b' = asmcode b" and "requiresFinalization b' = requiresFinalization b"
    and "variables b' = variables b"
  using assms
  by (auto simp add: visitProcedure_def run_def pushProcedureContext_def
      popProcedureContext_def split: sum.splits list.splits option.splits)

section \<open>Properties of the parameters of a procedure\<close>

lemma declaredName_eq:
  "(if getTypeId p = ASSOCIATION then getKey p else p) = declaredName p"
  by (cases p) (simp_all add: declaredName_def)

lemma parameterLoop_map: "parameterLoop ps items = ps @ map declaredName items"
  by (induction items arbitrary: ps) (simp_all add: declaredName_eq)

lemma visit_keeps_parameters: "visit n b = Inr b' \<Longrightarrow> parameters b' = parameters b"
  using preserves_visit [of n] by (simp add: preserves_def steady_def grows_def)

lemma getInstructions_keeps_parameters: "parameters (getInstructions b) = parameters b"
proof -
  have "steady b (finalize b)"
    unfolding finalize_def
    by (rule steady_trans [OF steady_insertLoadInstruction steady_insertHandleInstruction])
  then show ?thesis
    by (simp add: getInstructions_def steady_def grows_def)
qed

text \<open>
  Claim C10: whenever \<open>compileProcedure\<close> returns a context, the parameters of that context
  are the declared parameters of the source in their order, each association replaced by its
  key (the default value is dropped) and every other parameter as it is; a source that is
  not parameterized gives no parameters. A parameter is held as its text.
\<close>

theorem parameters_keep_keys:
  assumes "compileProcedure parser T type (Source text procedure ps) = Inr r"
  shows "parameters r =
           map (\<lambda>p. toString (declaredName p))
             (case ps of None \<Rightarrow> [] | Some collection \<Rightarrow> getItems collection)
       \<and> (\<forall>key val. declaredName (Association key val) = key)
       \<and> (\<forall>p. getTypeId p \<noteq> ASSOCIATION \<longrightarrow> declaredName p = p)"
proof -
  let ?b0 = "(newCompiler (map toString (extractParameters (Source text procedure ps))))
               \<lparr>literals := literals type, constants := constants type\<rparr>"
  from assms obtain b where b: "compileAssembly type (Source text procedure ps) = Inr b"
    and r: "parameters r = parameters b"
    by (auto simp add: compileProcedure_def split: sum.splits)
  from b obtain b1 where v: "visit procedure ?b0 = Inr b1" and g: "b = getInstructions b1"
    by (auto simp add: compileAssembly_def split: sum.splits)
  have "parameters b = parameters ?b0"
    using visit_keeps_parameters [OF v] g by (simp add: getInstructions_keeps_parameters)
  also have "\<dots> = map toString (extractParameters (Source text procedure ps))"
    by (simp add: newCompiler_def)
  also have "\<dots> = map (\<lambda>p. toString (declaredName p))
             (case ps of None \<Rightarrow> [] | Some collection \<Rightarrow> getItems collection)"
    by (simp add: extractParameters_def parameterLoop_map split: option.splits)
  finally have 1: "parameters r =
           map (\<lambda>p. toString (declaredName p))
             (case ps of None \<Rightarrow> [] | Some collection \<Rightarrow> getItems collection)"
    using r by simp
  have 2: "declaredName p = p" if "getTypeId p \<noteq> ASSOCIATION" for p
    using that by (cases p) (simp_all add: declaredName_def)
  from 1 2 show ?thesis by (simp add: declaredName_def)
qed

theorem parameters_keep_keys_witness:
  "map_sum id parameters (compileProcedure parseReturn baliTypes emptyType returnWithDefaults)
     = Inr [''$y'', ''$z'']
   \<and> map_sum id parameters (compileProcedure parseReturn baliTypes emptyType returnWithNames)
     = Inr [''$x'', ''$y'']
   \<and> map_sum id instructions (compileProcedure parseReturn baliTypes emptyType returnWithNames)
     = Inr (textOfAssembly (''    1.ReturnStatement:'' @ EOL @ ''    PUSH LITERAL `none`'' @ EOL
              @ ''    HANDLE RESULT''))"
proof -
  obtain r1 where r1: "compileProcedure parseReturn baliTypes emptyType
      (Source ''return'' (Tree Procedure [] [Tree Statement [] [returnNone]])
        (Some (Parameters (Collection Catalog None
           [Association (Element SYMBOL ''$y'' None) (Element NUMBER ''5'' None),
            Association (Element SYMBOL ''$z'' None) (Element NUMBER ''6'' None)])))) = Inr r1"
  proof -
    have "isl (compileProcedure parseReturn baliTypes emptyType returnWithDefaults) = False"
      by code_simp
    then show ?thesis
      using that by (cases "compileProcedure parseReturn baliTypes emptyType returnWithDefaults")
        (simp_all add: returnWithDefaults_def)
  qed
  obtain r2 where r2: "compileProcedure parseReturn baliTypes emptyType
      (Source ''return'' (Tree Procedure [] [Tree Statement [] [returnNone]])
        (Some (Parameters (Collection List None
           [Element SYMBOL ''$x'' None, Element SYMBOL ''$y'' None])))) = Inr r2"
  proof -
    have "isl (compileProcedure parseReturn baliTypes emptyType returnWithNames) = False"
      by code_simp
    then show ?thesis
      using that by (cases "compileProcedure parseReturn baliTypes emptyType returnWithNames")
        (simp_all add: returnWithNames_def)
  qed
  have i: "map_sum id instructions
        (compileProcedure parseReturn baliTypes emptyType returnWithNames)
     = Inr (textOfAssembly (''    1.ReturnStatement:'' @ EOL @ ''    PUSH LITERAL `none`'' @ EOL
              @ ''    HANDLE RESULT''))"
    by code_simp
  from parameters_keep_keys [OF r1] parameters_keep_keys [OF r2] i show ?thesis
    by (simp add: returnWithDefaults_def returnWithNames_def r1 r2 declaredName_def)
qed

section \<open>Properties of the parser and the round trip\<close>

subsection \<open>Lines, words and numbers\<close>

lemma splitLines_append:
  "CHR 0x0A \<notin> set a \<Longrightarrow> splitLines acc (a @ rest) = splitLines (acc @ a) rest"
  by (induction a arbitrary: acc) auto

lemma splitLines_EOL: "splitLines acc (EOL @ rest) = acc # splitLines [] rest"
  by (simp add: EOL_def)

lemma splitLines_no_EOL:
  "l \<in> set (splitLines acc t) \<Longrightarrow> CHR 0x0A \<notin> set acc \<Longrightarrow> CHR 0x0A \<notin> set l"
  by (induction acc t rule: splitLines.induct) (auto split: if_splits)

lemma tokensFrom_word:
  "CHR '' '' \<notin> set a \<Longrightarrow> tokensFrom w (a @ rest) = tokensFrom (w @ a) rest"
  by (induction a arbitrary: w) auto

lemma tokensFrom_last:
  "CHR '' '' \<notin> set a \<Longrightarrow> w @ a \<noteq> [] \<Longrightarrow> tokensFrom w a = [w @ a]"
  using tokensFrom_word [of a w "[]"] by simp

lemma tokensFrom_next:
  "CHR '' '' \<notin> set a \<Longrightarrow> w @ a \<noteq> [] \<Longrightarrow>
   tokensFrom w (a @ CHR '' '' # rest) = (w @ a) # tokensFrom [] rest"
  using tokensFrom_word [of a w "CHR '' '' # rest"] by simp

lemma tokensFrom_words:
  "u \<in> set (tokensFrom w t) \<Longrightarrow> CHR '' '' \<notin> set w
   \<Longrightarrow> u \<noteq> [] \<and> CHR '' '' \<notin> set u \<and> set u \<subseteq> set w \<union> set t"
  by (induction w t rule: tokensFrom.induct) (auto split: if_splits)

lemma stripPrefix_Some: "stripPrefix p s = Some r \<Longrightarrow> s = p @ r"
  by (induction p s rule: stripPrefix.induct) (auto split: if_splits)

lemma stripPrefix_append: "stripPrefix p (p @ r) = Some r"
  by (induction p) auto

lemma digitsValue_append:
  "digitsValue n (a @ b) = (case digitsValue n a of None \<Rightarrow> None | Some m \<Rightarrow> digitsValue m b)"
  by (induction a arbitrary: n) (auto split: option.splits)

lemma digits_below_ten:
  "\<forall>d < 10. indexOf ''0123456789'' (digit d) = Some d
              \<and> digit d \<noteq> CHR '' '' \<and> digit d \<noteq> CHR 0x0A"
  by (simp add: eval_nat_numeral All_less_Suc digit_def)

lemma indexOf_digit: "d < 10 \<Longrightarrow> indexOf ''0123456789'' (digit d) = Some d"
  using digits_below_ten by blast

lemma digitsValue_decimal: "digitsValue n (decimal m) = Some (n * 10 ^ length (decimal m) + m)"
proof (induction m arbitrary: n rule: decimal.induct)
  case (1 m)
  show ?case
  proof (cases "m < 10")
    case True
    have d: "decimal m = [digit m]"
      using True by (subst decimal.simps) simp
    show ?thesis
      using indexOf_digit [OF True] by (simp add: d del: indexOf.simps)
  next
    case False
    have d: "decimal m = decimal (m div 10) @ [digit (m mod 10)]"
      using False by (subst decimal.simps) simp
    have i: "indexOf ''0123456789'' (digit (m mod 10)) = Some (m mod 10)"
      by (rule indexOf_digit) simp
    show ?thesis
      using 1 [OF False, of n] i
      by (simp add: d digitsValue_append algebra_simps del: indexOf.simps)
  qed
qed

lemma decimal_not_Nil: "decimal m \<noteq> []"
  by (subst decimal.simps) simp

lemma numberOf_decimal: "numberOf (decimal m) = Some m"
  by (simp add: numberOf_def decimal_not_Nil digitsValue_decimal)

lemma digit_plain: "d < 10 \<Longrightarrow> digit d \<noteq> CHR '' '' \<and> digit d \<noteq> CHR 0x0A"
  using digits_below_ten by blast

lemma decimal_plain: "CHR '' '' \<notin> set (decimal m) \<and> CHR 0x0A \<notin> set (decimal m)"
proof (induction m rule: decimal.induct)
  case (1 m)
  show ?case
  proof (cases "m < 10")
    case True
    have d: "decimal m = [digit m]"
      using True by (subst decimal.simps) simp
    show ?thesis
      using digit_plain [OF True] by (auto simp add: d)
  next
    case False
    have d: "decimal m = decimal (m div 10) @ [digit (m mod 10)]"
      using False by (subst decimal.simps) simp
    show ?thesis
      using 1 [OF False] digit_plain [of "m mod 10"] by (auto simp add: d)
  qed
qed

subsection \<open>Every well-formed step reads back\<close>

lemma dropWhile_indent:
  "dropWhile (\<lambda>c. c = CHR '' '') (indent k @ t) = dropWhile (\<lambda>c. c = CHR '' '') t"
proof -
  have "\<forall>c \<in> set (indent k). c = CHR '' ''"
    by (induction k) (auto simp add: indent_def)
  then show ?thesis by (simp add: dropWhile_append2)
qed

lemma lineRule_indent: "lineRule (indent k @ t) = lineRule t"
  by (simp add: lineRule_def dropWhile_indent)

lemma below_four: "m < 4 \<Longrightarrow> m = 0 \<or> m = 1 \<or> m = 2 \<or> m = (3::nat)"
  by arith

lemma below_two: "m < 2 \<Longrightarrow> m = 0 \<or> m = (1::nat)"
  by arith

lemmas reads_simps =
  reads_def stepText_def fmt_visitCatalog_def fmt_label_def baliTypes_def modifierName_def
  lineRule_def tokens_def wordsRule_def coded_def instruction_def isWord_def
  tokensFrom_last tokensFrom_next Let_def

lemma reads_skip:
  "reads \<lparr>label = l, operation = 0, modifier = None, operand = None\<rparr>"
  by (simp add: reads_simps fmt_visitJumpInstruction_def)

lemma reads_jump:
  assumes "isWord x" and "m < 4"
  shows "reads \<lparr>label = l, operation = 0, modifier = Some m, operand = Some x\<rparr>"
  using assms(1) below_four [OF assms(2)]
  by (elim disjE) (simp_all add: reads_simps fmt_visitJumpInstruction_def)

lemma reads_push_handler:
  assumes "isWord x"
  shows "reads \<lparr>label = l, operation = 1, modifier = Some 0, operand = Some x\<rparr>"
  using assms by (simp add: reads_simps fmt_visitPushInstruction_def)

lemma reads_push_literal:
  assumes "CHR 0x0A \<notin> set x"
  shows "reads \<lparr>label = l, operation = 1, modifier = Some 1, operand = Some x\<rparr>"
  using assms by (simp add: reads_simps fmt_visitPushInstruction_def)

lemma reads_push_symbol:
  assumes "isWord x" and "isSymbol x" and "m = 2 \<or> m = 3"
  shows "reads \<lparr>label = l, operation = 1, modifier = Some m, operand = Some x\<rparr>"
  using assms(1,2) assms(3)
  by (elim disjE) (simp_all add: reads_simps fmt_visitPushInstruction_def)

lemma reads_pop:
  assumes "m < 2"
  shows "reads \<lparr>label = l, operation = 2, modifier = Some m, operand = None\<rparr>"
  using below_two [OF assms]
  by (elim disjE) (simp_all add: reads_simps fmt_visitPopInstruction_def)

lemma reads_load:
  assumes "isWord x" and "isSymbol x" and "m < 4"
  shows "reads \<lparr>label = l, operation = 3, modifier = Some m, operand = Some x\<rparr>"
  using assms(1,2) below_four [OF assms(3)]
  by (elim disjE) (simp_all add: reads_simps fmt_visitLoadInstruction_def)

lemma reads_store:
  assumes "isWord x" and "isSymbol x" and "m < 4"
  shows "reads \<lparr>label = l, operation = 4, modifier = Some m, operand = Some x\<rparr>"
  using assms(1,2) below_four [OF assms(3)]
  by (elim disjE) (simp_all add: reads_simps fmt_visitStoreInstruction_def)

lemma reads_invoke:
  assumes "isWord x" and "isSymbol x"
  shows "reads \<lparr>label = l, operation = 5, modifier = Some m, operand = Some x\<rparr>"
proof -
  consider "m = 0" | "m = 1" | "1 < m" by arith
  then show ?thesis
  proof cases
    case 1
    with assms show ?thesis by (simp add: reads_simps fmt_visitInvokeInstruction_def)
  next
    case 2
    with assms show ?thesis by (simp add: reads_simps fmt_visitInvokeInstruction_def)
  next
    case 3
    with assms show ?thesis
      by (simp add: reads_simps fmt_visitInvokeInstruction_def decimal_plain decimal_not_Nil
          numberOf_decimal)
  qed
qed

lemma reads_execute:
  assumes "isWord x" and "isSymbol x" and "m < 4"
  shows "reads \<lparr>label = l, operation = 6, modifier = Some m, operand = Some x\<rparr>"
  using assms(1,2) below_four [OF assms(3)]
  by (elim disjE) (simp_all add: reads_simps fmt_visitExecuteInstruction_def)

lemma reads_handle:
  assumes "m < 2"
  shows "reads \<lparr>label = l, operation = 7, modifier = Some m, operand = None\<rparr>"
  using below_two [OF assms]
  by (elim disjE) (simp_all add: reads_simps fmt_visitHandleInstruction_def)

lemma wellFormed_cases:
  assumes "wellFormed \<lparr>label = l, operation = opn, modifier = m, operand = x\<rparr>"
  obtains
    (skip) "opn = 0" "m = None" "x = None"
  | (jump) k y where "opn = 0" "m = Some k" "x = Some y" "k < 4" "isWord y"
  | (handler) y where "opn = 1" "m = Some 0" "x = Some y" "isWord y"
  | (literal) y where "opn = 1" "m = Some 1" "x = Some y" "CHR 0x0A \<notin> set y"
  | (symbol) k y where "opn = 1" "m = Some k" "x = Some y" "k = 2 \<or> k = 3" "isWord y"
      "isSymbol y"
  | (pop) k where "opn = 2" "m = Some k" "x = None" "k < 2"
  | (load) k y where "opn = 3" "m = Some k" "x = Some y" "k < 4" "isWord y" "isSymbol y"
  | (store) k y where "opn = 4" "m = Some k" "x = Some y" "k < 4" "isWord y" "isSymbol y"
  | (invoke) k y where "opn = 5" "m = Some k" "x = Some y" "isWord y" "isSymbol y"
  | (execute) k y where "opn = 6" "m = Some k" "x = Some y" "k < 4" "isWord y" "isSymbol y"
  | (handle) k where "opn = 7" "m = Some k" "x = None" "k < 2"
proof (cases m)
  case None
  with assms skip show ?thesis
    by (simp add: wellFormed_def baliTypes_def)
next
  case m: (Some k)
  show ?thesis
  proof (cases x)
    case None
    with assms m pop handle show ?thesis
      by (auto simp add: wellFormed_def baliTypes_def)
  next
    case x: (Some y)
    from assms m x have w:
      "if opn = 0 then k < 4 \<and> isWord y
       else if opn = 1 then
         k < 4 \<and> (if k = 1 then CHR 0x0A \<notin> set y
                  else if k = 0 then isWord y else isWord y \<and> isSymbol y)
       else if opn = 3 \<or> opn = 4 \<or> opn = 6 then k < 4 \<and> isWord y \<and> isSymbol y
       else opn = 5 \<and> isWord y \<and> isSymbol y"
      by (simp add: wellFormed_def baliTypes_def cong: if_cong)
    show ?thesis
    proof (cases "opn = 0")
      case True
      with w m x jump show ?thesis by simp
    next
      case n0: False
      show ?thesis
      proof (cases "opn = 1")
        case True
        with w have k: "k < 4" by simp
        show ?thesis
        proof (cases "k = 1")
          case True
          with w \<open>opn = 1\<close> m x literal show ?thesis by simp
        next
          case k1: False
          show ?thesis
          proof (cases "k = 0")
            case True
            with w \<open>opn = 1\<close> m x handler show ?thesis by simp
          next
            case False
            with k k1 have "k = 2 \<or> k = 3" by arith
            with w \<open>opn = 1\<close> k1 False m x symbol show ?thesis by simp
          qed
        qed
      next
        case n1: False
        show ?thesis
        proof (cases "opn = 3 \<or> opn = 4 \<or> opn = 6")
          case True
          with w n0 n1 m x load store execute show ?thesis by auto
        next
          case False
          with w n0 n1 m x invoke show ?thesis by simp
        qed
      qed
    qed
  qed
qed

lemma wellFormed_reads:
  assumes "wellFormed s"
  shows "reads s"
proof (cases s)
  case (fields l opn m x)
  from assms [unfolded fields] show ?thesis
  proof (cases rule: wellFormed_cases)
    case skip
    with fields show ?thesis by (simp add: reads_skip [unfolded One_nat_def])
  next
    case (jump k y)
    with fields show ?thesis by (simp add: reads_jump [unfolded One_nat_def])
  next
    case (handler y)
    with fields show ?thesis by (simp add: reads_push_handler [unfolded One_nat_def])
  next
    case (literal y)
    with fields show ?thesis by (simp add: reads_push_literal [unfolded One_nat_def])
  next
    case (symbol k y)
    with fields show ?thesis by (simp add: reads_push_symbol [unfolded One_nat_def])
  next
    case (pop k)
    with fields show ?thesis by (simp add: reads_pop [unfolded One_nat_def])
  next
    case (load k y)
    with fields show ?thesis by (simp add: reads_load [unfolded One_nat_def])
  next
    case (store k y)
    with fields show ?thesis by (simp add: reads_store [unfolded One_nat_def])
  next
    case (invoke k y)
    with fields show ?thesis by (simp add: reads_invoke [unfolded One_nat_def])
  next
    case (execute k y)
    with fields show ?thesis by (simp add: reads_execute [unfolded One_nat_def])
  next
    case (handle k)
    with fields show ?thesis by (simp add: reads_handle [unfolded One_nat_def])
  qed
qed

subsection \<open>Parsing the formatted text\<close>

lemma length_indent: "length (indent n) = 4 * n"
  by (induction n) (simp_all add: indent_def)

lemma laterLines_simps:
  "laterLines [] = []"
  "laterLines (l # ls) = EOL @ l @ laterLines ls"
  "laterLines (ks @ ls) = laterLines ks @ laterLines ls"
  by (simp_all add: laterLines_def)

lemma fmt_steps_lines:
  assumes "\<forall>s \<in> set xs. wellFormed s"
  shows "fmt_steps baliTypes n source xs
           = Inr (source @ laterLines (concat (map (stepLines False n) xs)))"
  using assms
proof (induction xs arbitrary: source)
  case Nil
  show ?case by (simp add: laterLines_simps)
next
  case (Cons s xs)
  from Cons.prems have "reads s" by (simp add: wellFormed_reads)
  then have f: "fmt_visitCatalog baliTypes n (appendNewline n source) s
      = Inr (fmt_label n (appendNewline n source) s @ stepText s)"
    by (simp add: reads_def)
  have l: "fmt_label n (appendNewline n source) s @ stepText s
      = source @ laterLines (stepLines False n s)"
    by (cases "label s")
       (simp_all add: fmt_label_def appendNewline_def stepLines_def laterLines_simps
         length_indent EOL_def)
  show ?case
    using Cons.IH [of "source @ laterLines (stepLines False n s)"] Cons.prems
    by (simp add: f l laterLines_simps)
qed

lemma formatInstructions_lines:
  assumes "\<forall>s \<in> set (x # xs). wellFormed s"
  shows "\<exists>first rest. stepLines True n x = first # rest
    \<and> formatInstructions baliTypes n (x # xs)
        = Inr (first @ laterLines (rest @ concat (map (stepLines False n) xs)))"
proof -
  from assms have "reads x" by (simp add: wellFormed_reads)
  then have f: "fmt_visitCatalog baliTypes n (indent n) x
      = Inr (fmt_label n (indent n) x @ stepText x)"
    by (simp add: reads_def)
  from assms have r: "\<forall>s \<in> set xs. wellFormed s" by simp
  show ?thesis
    by (cases "label x")
       (simp_all add: formatInstructions_def fmt_visitList_def f fmt_steps_lines [OF r]
         fmt_label_def appendNewline_def stepLines_def laterLines_simps length_indent)
qed

lemma splitLines_later:
  assumes "CHR 0x0A \<notin> set a" and "\<forall>l \<in> set ls. CHR 0x0A \<notin> set l"
  shows "splitLines acc (a @ laterLines ls) = (acc @ a) # ls"
  using assms
proof (induction ls arbitrary: acc a)
  case Nil
  then show ?case
    using splitLines_append [of a acc "[]"] by (simp add: laterLines_simps)
next
  case (Cons l ls)
  have "splitLines acc (a @ laterLines (l # ls))
      = splitLines (acc @ a) (EOL @ l @ laterLines ls)"
    using Cons.prems(1) by (simp add: laterLines_simps splitLines_append)
  also have "\<dots> = (acc @ a) # splitLines [] (l @ laterLines ls)"
    by (rule splitLines_EOL)
  also have "splitLines [] (l @ laterLines ls) = l # ls"
    using Cons.IH [of l "[]"] Cons.prems(2) by simp
  finally show ?case .
qed

lemma indent_plain: "CHR 0x0A \<notin> set (indent n)"
  by (induction n) (auto simp add: indent_def)

lemma stepLines_plain:
  assumes "wellFormed s" and "l \<in> set (stepLines first n s)"
  shows "CHR 0x0A \<notin> set l"
proof -
  from assms(1) have "CHR 0x0A \<notin> set (stepText s)"
    using wellFormed_reads by (simp add: reads_def)
  moreover have "CHR 0x0A \<notin> set w" if "label s = Some w" for w
    using assms(1) that by (simp add: wellFormed_def isWord_def)
  ultimately show ?thesis
    using assms(2) indent_plain [of n]
    by (auto simp add: stepLines_def split: option.splits if_splits)
qed

lemma lineRule_blank: "lineRule (indent n) = Blank"
  using lineRule_indent [of n "[]"] by (simp add: lineRule_def)

lemma lineRule_label:
  assumes "isWord w"
  shows "lineRule (indent n @ w @ '':'') = Label w"
proof -
  from assms obtain c cs where w: "w = c # cs" and c: "c \<noteq> CHR '' ''"
    by (cases w) (auto simp add: isWord_def)
  have s: "CHR '' '' \<notin> set (w @ '':'')"
    using assms by (simp add: isWord_def)
  have "stripPrefix ''PUSH LITERAL `'' (w @ '':'') = None"
  proof (cases "stripPrefix ''PUSH LITERAL `'' (w @ '':'')")
    case (Some r)
    then have "w @ '':'' = ''PUSH LITERAL `'' @ r" by (rule stripPrefix_Some)
    then have "CHR '' '' \<in> set (w @ '':'')" by simp
    with s show ?thesis by simp
  qed simp
  moreover have "tokens (w @ '':'') = [w @ '':'']"
    unfolding tokens_def using s by (simp add: tokensFrom_last)
  moreover have "dropWhile (\<lambda>c. c = CHR '' '') (w @ '':'') = w @ '':''"
    using w c by simp
  ultimately have "lineRule (w @ '':'') = Label w"
    using w by (simp add: lineRule_def)
  then show ?thesis by (simp add: lineRule_indent)
qed

lemma lineRule_instruction:
  assumes "wellFormed s"
  shows "lineRule (indent n @ stepText s) = Instruction (s\<lparr>label := None\<rparr>)"
  using wellFormed_reads [OF assms] by (simp add: reads_def lineRule_indent)

lemma label_update_same:
  "label s = l \<Longrightarrow> s\<lparr>label := l\<rparr> = s"
  "label s = l \<Longrightarrow> s\<lparr>label := k, label := l\<rparr> = s"
  by (cases s; simp)+

lemma stepLines_rules:
  assumes "wellFormed s"
  shows "stepsRule (map lineRule (stepLines True n s @ ls))
           = (case stepsRule (map lineRule ls) of Inl e \<Rightarrow> Inl e | Inr xs \<Rightarrow> Inr (s # xs))"
    and "stepsRule (map lineRule (stepLines False n s @ ls))
           = (case stepsRule (map lineRule ls) of Inl e \<Rightarrow> Inl e | Inr xs \<Rightarrow> Inr (s # xs))"
proof -
  note i = lineRule_instruction [OF assms]
  show "stepsRule (map lineRule (stepLines True n s @ ls))
           = (case stepsRule (map lineRule ls) of Inl e \<Rightarrow> Inl e | Inr xs \<Rightarrow> Inr (s # xs))"
  proof (cases "label s")
    case None
    then have "stepLines True n s = [indent n @ stepText s]"
      by (simp add: stepLines_def)
    then show ?thesis
      using None by (simp add: i label_update_same split: sum.splits)
  next
    case (Some l)
    with assms have "isWord l" by (simp add: wellFormed_def)
    moreover from Some have "stepLines True n s = [indent n @ l @ '':'', indent n @ stepText s]"
      by (simp add: stepLines_def)
    ultimately show ?thesis
      using Some by (simp add: i lineRule_label label_update_same split: sum.splits)
  qed
  show "stepsRule (map lineRule (stepLines False n s @ ls))
           = (case stepsRule (map lineRule ls) of Inl e \<Rightarrow> Inl e | Inr xs \<Rightarrow> Inr (s # xs))"
  proof (cases "label s")
    case None
    then have "stepLines False n s = [indent n @ stepText s]"
      by (simp add: stepLines_def)
    then show ?thesis
      using None by (simp add: i label_update_same split: sum.splits)
  next
    case (Some l)
    with assms have "isWord l" by (simp add: wellFormed_def)
    moreover from Some
    have "stepLines False n s = [indent n, indent n @ l @ '':'', indent n @ stepText s]"
      by (simp add: stepLines_def)
    ultimately show ?thesis
      using Some by (simp add: i lineRule_label lineRule_blank label_update_same split: sum.splits)
  qed
qed

lemma stepsRule_lines:
  assumes "\<forall>s \<in> set xs. wellFormed s"
  shows "stepsRule (map lineRule (concat (map (stepLines False n) xs))) = Inr xs"
  using assms
proof (induction xs)
  case Nil
  show ?case by simp
next
  case (Cons s xs)
  then have w: "wellFormed s"
    and ih: "stepsRule (map lineRule (concat (map (stepLines False n) xs))) = Inr xs"
    by simp_all
  show ?case
    using stepLines_rules(2) [OF w, of n "concat (map (stepLines False n) xs)"] ih
    by simp
qed

lemma stepsRule_first:
  assumes "wellFormed s" and "stepsRule (map lineRule ls) = Inr xs"
  shows "stepsRule (map lineRule (stepLines True n s @ ls)) = Inr (s # xs)"
  using stepLines_rules(1) [OF assms(1), of n ls] assms(2) by simp

lemma parse_format:
  assumes "\<forall>s \<in> set xs. wellFormed s" and "xs \<noteq> []"
  shows "\<exists>t. formatInstructions baliTypes n xs = Inr t \<and> parseDocument t = Inr xs"
proof -
  from assms(2) obtain x rest where xs: "xs = x # rest" by (cases xs) auto
  from assms(1) xs have x: "wellFormed x" and r: "\<forall>s \<in> set rest. wellFormed s"
    by simp_all
  from formatInstructions_lines [of x rest n] assms(1) xs
  obtain first more where f: "stepLines True n x = first # more"
    and t: "formatInstructions baliTypes n xs
        = Inr (first @ laterLines (more @ concat (map (stepLines False n) rest)))"
    by auto
  let ?ls = "more @ concat (map (stepLines False n) rest)"
  have p: "\<forall>l \<in> set (first # ?ls). CHR 0x0A \<notin> set l"
  proof
    fix l assume "l \<in> set (first # ?ls)"
    then have "l \<in> set (stepLines True n x) \<or> (\<exists>s \<in> set rest. l \<in> set (stepLines False n s))"
      using f by auto
    then show "CHR 0x0A \<notin> set l"
      using x r stepLines_plain by blast
  qed
  have "linesOf (first @ laterLines ?ls) = first # ?ls"
    unfolding linesOf_def using splitLines_later [of first ?ls "[]"] p by simp
  then have "map lineRule (linesOf (first @ laterLines ?ls))
      = map lineRule (stepLines True n x @ concat (map (stepLines False n) rest))"
    using f by simp
  then have "stepsRule (map lineRule (linesOf (first @ laterLines ?ls))) = Inr (x # rest)"
    using stepsRule_first [OF x stepsRule_lines [OF r]] by simp
  then have "parseDocument (first @ laterLines ?ls) = Inr xs"
    by (simp add: parseDocument_def xs)
  with t show ?thesis by blast
qed

subsection \<open>The steps that the parser gives are well-formed\<close>

lemma indexOf_bound: "indexOf xs x = Some i \<Longrightarrow> i < length xs"
  by (induction xs arbitrary: i) (auto split: if_splits)

lemma coded_wellFormed:
  assumes "coded opn table w x = Inr i" and "length table \<le> b"
  shows "\<exists>m. i = instruction opn (Some m) x \<and> m < b"
  using assms indexOf_bound [of table w]
  by (auto simp add: coded_def split: option.splits)

lemma wellFormed_instruction:
  "wellFormed (instruction 0 None None)"
  "m < 4 \<Longrightarrow> isWord x \<Longrightarrow> wellFormed (instruction 0 (Some m) (Some x))"
  "isWord x \<Longrightarrow> wellFormed (instruction 1 (Some 0) (Some x))"
  "CHR 0x0A \<notin> set x \<Longrightarrow> wellFormed (instruction 1 (Some 1) (Some x))"
  "isWord x \<Longrightarrow> isSymbol x \<Longrightarrow> wellFormed (instruction 1 (Some 2) (Some x))"
  "isWord x \<Longrightarrow> isSymbol x \<Longrightarrow> wellFormed (instruction 1 (Some 3) (Some x))"
  "m < 2 \<Longrightarrow> wellFormed (instruction 2 (Some m) None)"
  "m < 4 \<Longrightarrow> isWord x \<Longrightarrow> isSymbol x \<Longrightarrow> wellFormed (instruction 3 (Some m) (Some x))"
  "m < 4 \<Longrightarrow> isWord x \<Longrightarrow> isSymbol x \<Longrightarrow> wellFormed (instruction 4 (Some m) (Some x))"
  "isWord x \<Longrightarrow> isSymbol x \<Longrightarrow> wellFormed (instruction 5 (Some m) (Some x))"
  "m < 4 \<Longrightarrow> isWord x \<Longrightarrow> isSymbol x \<Longrightarrow> wellFormed (instruction 6 (Some m) (Some x))"
  "m < 2 \<Longrightarrow> wellFormed (instruction 7 (Some m) None)"
  by (simp_all add: wellFormed_def instruction_def baliTypes_def)

lemma label_instruction: "label (instruction opn m x) = None"
  by (simp add: instruction_def)

lemma plain_instruction:
  "wellFormed (instruction opn m x) \<Longrightarrow> plain (instruction opn m x)"
  by (simp add: plain_def label_instruction)

lemma wordsRule2:
  assumes "wordsRule [a, b] = Inr i" and "isWord a" and "isWord b"
  shows "plain i"
proof -
  have c: "plain i" if "coded opn table b None = Inr i" "length table \<le> 2" "opn = 2 \<or> opn = 7"
    for opn table
    using coded_wellFormed [OF that(1,2)] that(3)
    by (auto intro!: plain_instruction wellFormed_instruction)
  from assms show ?thesis
    by (auto simp add: wordsRule_def baliTypes_def split: if_splits
        intro!: plain_instruction wellFormed_instruction [unfolded One_nat_def]
        intro: c [of 2] c [of 7])
qed

lemma wordsRule3:
  assumes "wordsRule [a, b, c] = Inr i" and "isWord c"
  shows "plain i"
proof -
  have k: "plain i"
    if "coded opn table b (Some c) = Inr i" "length table \<le> 4" "opn = 3 \<or> opn = 4"
      "isSymbol c"
    for opn table
    using coded_wellFormed [OF that(1,2)] that(3,4) assms(2)
    by (auto intro!: plain_instruction wellFormed_instruction)
  from assms show ?thesis
    by (auto simp add: wordsRule_def baliTypes_def split: if_splits
        intro!: plain_instruction wellFormed_instruction [unfolded One_nat_def]
        intro: k [of 3] k [of 4])
qed

lemma wordsRule4:
  assumes "wordsRule [a, b, c, d] = Inr i" and "isWord b"
  shows "plain i"
  using assms
  by (auto simp add: wordsRule_def baliTypes_def split: if_splits
      intro!: plain_instruction wellFormed_instruction [unfolded One_nat_def])

lemma wordsRule5:
  assumes "wordsRule [a, b, c, d, e] = Inr i" and "isWord b" and "isWord c"
  shows "plain i"
proof -
  have j: "plain (instruction 0 (Some (Suc m)) (Some c))"
    if "indexOf [''NONE'', ''TRUE'', ''FALSE''] e = Some m" for m
    using indexOf_bound [OF that] assms(3)
    by (auto intro!: plain_instruction wellFormed_instruction)
  from assms show ?thesis
    by (auto simp add: wordsRule_def baliTypes_def split: if_splits option.splits
        simp del: indexOf.simps
        intro!: plain_instruction wellFormed_instruction [unfolded One_nat_def] j)
qed

lemma wordsRule6:
  assumes "wordsRule [a, b, c, d, e, f] = Inr i" and "isWord b"
  shows "plain i"
  using assms
  by (auto simp add: wordsRule_def baliTypes_def split: if_splits
      intro!: plain_instruction wellFormed_instruction [unfolded One_nat_def])

lemma wordsRule_plain:
  assumes r: "wordsRule ws = Inr i" and w: "\<forall>w \<in> set ws. isWord w"
  shows "plain i"
proof -
  consider
    (none) "ws = []" | (one) a where "ws = [a]" | (two) a b where "ws = [a, b]"
    | (three) a b c where "ws = [a, b, c]" | (four) a b c d where "ws = [a, b, c, d]"
    | (five) a b c d e where "ws = [a, b, c, d, e]"
    | (six) a b c d e f where "ws = [a, b, c, d, e, f]"
    | (long) a b c d e f g r where "ws = a # b # c # d # e # f # g # r"
  proof (cases ws)
    case Nil
    then show ?thesis using none by simp
  next
    case 1: (Cons a ws1)
    show ?thesis
    proof (cases ws1)
      case Nil
      with 1 show ?thesis using one by simp
    next
      case 2: (Cons b ws2)
      show ?thesis
      proof (cases ws2)
        case Nil
        with 1 2 show ?thesis using two by simp
      next
        case 3: (Cons c ws3)
        show ?thesis
        proof (cases ws3)
          case Nil
          with 1 2 3 show ?thesis using three by simp
        next
          case 4: (Cons d ws4)
          show ?thesis
          proof (cases ws4)
            case Nil
            with 1 2 3 4 show ?thesis using four by simp
          next
            case 5: (Cons e ws5)
            show ?thesis
            proof (cases ws5)
              case Nil
              with 1 2 3 4 5 show ?thesis using five by simp
            next
              case 6: (Cons f ws6)
              show ?thesis
              proof (cases ws6)
                case Nil
                with 1 2 3 4 5 6 show ?thesis using six by simp
              next
                case (Cons g ws7)
                with 1 2 3 4 5 6 show ?thesis using long by simp
              qed
            qed
          qed
        qed
      qed
    qed
  qed
  then show ?thesis
  proof cases
    case none
    then have "wordsRule ws = Inl SyntaxError"
      by (simp add: wordsRule_def)
    with r show ?thesis by simp
  next
    case one
    then have "wordsRule ws = Inl SyntaxError"
      by (simp add: wordsRule_def)
    with r show ?thesis by simp
  next
    case two
    with r w show ?thesis by (auto intro: wordsRule2)
  next
    case three
    with r w show ?thesis by (auto intro: wordsRule3)
  next
    case four
    with r w show ?thesis by (auto intro: wordsRule4)
  next
    case five
    with r w show ?thesis by (auto intro: wordsRule5)
  next
    case six
    with r w show ?thesis by (auto intro: wordsRule6)
  next
    case long
    then have "wordsRule ws = Inl SyntaxError"
      by (simp add: wordsRule_def)
    with r show ?thesis by simp
  qed
qed

lemma tokens_words:
  assumes "CHR 0x0A \<notin> set l" and "w \<in> set (tokens l)"
  shows "isWord w"
  using tokensFrom_words [of w "[]" l] assms by (auto simp add: tokens_def isWord_def)

lemma lineRule_plain:
  assumes "CHR 0x0A \<notin> set l"
  shows "case lineRule l of Instruction i \<Rightarrow> plain i | Label w \<Rightarrow> isWord w | _ \<Rightarrow> True"
proof -
  define s where "s = dropWhile (\<lambda>c. c = CHR '' '') l"
  have s: "CHR 0x0A \<notin> set s"
    unfolding s_def using assms set_dropWhileD by fast
  have r: "lineRule l =
     (if s = [] then Blank
      else
        case stripPrefix ''PUSH LITERAL `'' s of
          Some rest \<Rightarrow>
            if rest \<noteq> [] \<and> last rest = CHR ''`'' then
              Instruction (instruction (PUSH baliTypes) (Some (LITERAL baliTypes))
                             (Some (butlast rest)))
            else Malformed
        | None \<Rightarrow>
            (case tokens s of
               [w] \<Rightarrow> if 2 \<le> length w \<and> last w = CHR '':'' then Label (butlast w) else Malformed
             | ws \<Rightarrow> (case wordsRule ws of Inl e \<Rightarrow> Malformed | Inr i \<Rightarrow> Instruction i)))"
    unfolding lineRule_def Let_def s_def by (rule refl)
  show ?thesis
  proof (cases "s = []")
    case True
    then show ?thesis by (simp add: r)
  next
    case ne: False
    show ?thesis
    proof (cases "stripPrefix ''PUSH LITERAL `'' s")
      case (Some rest)
      from stripPrefix_Some [OF Some] s have "CHR 0x0A \<notin> set rest"
        by (metis Un_iff set_append)
      then have "CHR 0x0A \<notin> set (butlast rest)"
        using in_set_butlastD by fast
      then have "plain (instruction 1 (Some 1) (Some (butlast rest)))"
        by (intro plain_instruction wellFormed_instruction)
      then show ?thesis
        unfolding r using ne Some by (simp add: baliTypes_def)
    next
      case None
      have w: "\<forall>w \<in> set (tokens s). isWord w"
        using tokens_words [OF s] by blast
      show ?thesis
      proof (cases "\<exists>w. tokens s = [w]")
        case True
        then obtain w where t: "tokens s = [w]" ..
        with w have "isWord w" by simp
        then have "isWord (butlast w)" if "2 \<le> length w"
          using that in_set_butlastD [of _ w]
          by (cases w rule: rev_cases) (auto simp add: isWord_def)
        then show ?thesis
          unfolding r using ne None t by simp
      next
        case False
        then have "lineRule l = (case wordsRule (tokens s) of
            Inl e \<Rightarrow> Malformed | Inr i \<Rightarrow> Instruction i)"
          unfolding r using ne None by (simp split: list.splits)
        then show ?thesis
          using wordsRule_plain [OF _ w] by (auto split: sum.splits)
      qed
    qed
  qed
qed

lemma wellFormed_label:
  "wellFormed i \<Longrightarrow> isWord l \<Longrightarrow> wellFormed (i\<lparr>label := Some l\<rparr>)"
  by (simp add: wellFormed_def cong: option.case_cong if_cong)

lemma stepsRule_wellFormed:
  assumes "stepsRule ls = Inr xs"
    and "\<forall>l \<in> set ls. case l of Instruction i \<Rightarrow> plain i | Label w \<Rightarrow> isWord w | _ \<Rightarrow> True"
  shows "\<forall>s \<in> set xs. wellFormed s"
  using assms
proof (induction ls arbitrary: xs rule: stepsRule.induct)
  case (4 l i rest)
  from "4.prems" obtain steps where s: "stepsRule rest = Inr steps"
    and xs: "xs = i\<lparr>label := Some l\<rparr> # steps"
    by (auto split: sum.splits)
  from "4.prems" have "plain i" and "isWord l" by simp_all
  then have "wellFormed (i\<lparr>label := Some l\<rparr>)"
    by (simp add: plain_def wellFormed_label)
  moreover have "\<forall>s \<in> set steps. wellFormed s"
    using "4.IH" [OF s] "4.prems"(2) by simp
  ultimately show ?case using xs by simp
qed (auto split: sum.splits simp add: plain_def)

lemma parse_wellFormed:
  assumes "parseDocument t = Inr xs"
  shows "xs \<noteq> [] \<and> (\<forall>s \<in> set xs. wellFormed s)"
proof -
  from assms have r: "stepsRule (map lineRule (linesOf t)) = Inr xs" and n: "xs \<noteq> []"
    by (auto simp add: parseDocument_def split: sum.splits list.splits)
  have "\<forall>l \<in> set (linesOf t). CHR 0x0A \<notin> set l"
    using splitLines_no_EOL [of _ "[]" t] by (auto simp add: linesOf_def)
  then have "\<forall>l \<in> set (map lineRule (linesOf t)).
      case l of Instruction i \<Rightarrow> plain i | Label w \<Rightarrow> isWord w | _ \<Rightarrow> True"
    using lineRule_plain by auto
  from stepsRule_wellFormed [OF r this] n show ?thesis by simp
qed

subsection \<open>The round trip\<close>

text \<open>
  Claim C4: the instruction list of a compiled procedure is what the parser gives for the
  assembly that the visitor returns. For every instruction list that the parser gives,
  formatting it, parsing the text and formatting again gives the first text: the formatter
  does not fail on it, and the parser reads the very same instructions back from the text.
  (The count of an INVOKE is taken below \<open>2 ^ 53\<close>, where the formatter prints all its digits.)
\<close>

theorem round_trip_of_parsed_instructions:
  assumes "parseDocument text = Inr steps"
    and "\<forall>s \<in> set steps. \<forall>m. operation s = INVOKE baliTypes \<and> modifier s = Some m
           \<longrightarrow> m < 2 ^ 53"
  shows "roundTrip indentation steps = formatInstructions baliTypes indentation steps
       \<and> (\<exists>formatted. formatInstructions baliTypes indentation steps = Inr formatted
            \<and> parseDocument formatted = Inr steps)"
proof -
  from parse_wellFormed [OF assms(1)]
  have "\<forall>s \<in> set steps. wellFormed s" and "steps \<noteq> []"
    by simp_all
  from parse_format [OF this, of indentation] obtain formatted
    where f: "formatInstructions baliTypes indentation steps = Inr formatted"
      and p: "parseDocument formatted = Inr steps"
    by blast
  then show ?thesis by (simp add: roundTrip_def)
qed

theorem round_trip_of_parsed_instructions_witness:
  "map_sum id asmcode (compileAssembly emptyType sumOfVariables) = Inr sumAssembly
   \<and> parseDocument sumAssembly = Inr sumInstructions
   \<and> roundTrip 1 sumInstructions = formatInstructions baliTypes 1 sumInstructions
   \<and> formatInstructions baliTypes 1 sumInstructions
     = Inr (''    1.EvaluateStatement:'' @ EOL @ ''    LOAD VARIABLE $x'' @ EOL
            @ ''    LOAD VARIABLE $y'' @ EOL @ ''    INVOKE $sum WITH 2 PARAMETERS'' @ EOL
            @ ''    STORE VARIABLE $$result'' @ EOL @ ''    LOAD VARIABLE $$result'' @ EOL
            @ ''    HANDLE RESULT'')"
proof -
  have a: "map_sum id asmcode (compileAssembly emptyType sumOfVariables) = Inr sumAssembly"
    by code_simp
  have p: "parseDocument sumAssembly = Inr sumInstructions"
    by code_simp
  have b: "\<forall>s \<in> set sumInstructions. \<forall>m. operation s = INVOKE baliTypes \<and> modifier s = Some m
           \<longrightarrow> m < 2 ^ 53"
    by (simp add: sumInstructions_def)
  have f: "formatInstructions baliTypes 1 sumInstructions
     = Inr (''    1.EvaluateStatement:'' @ EOL @ ''    LOAD VARIABLE $x'' @ EOL
            @ ''    LOAD VARIABLE $y'' @ EOL @ ''    INVOKE $sum WITH 2 PARAMETERS'' @ EOL
            @ ''    STORE VARIABLE $$result'' @ EOL @ ''    LOAD VARIABLE $$result'' @ EOL
            @ ''    HANDLE RESULT'')"
    by code_simp
  from round_trip_of_parsed_instructions [OF p b, of 1] a p f show ?thesis
    by simp
qed

text \<open>
  With this parser in the place of the absent one, \<open>compileProcedure\<close> returns the formatted
  instructions of the procedure \<open>x + y\<close> as the text component of its context.
\<close>

lemma compileProcedure_sumOfVariables:
  "map_sum id instructions (compileProcedure parseDocument baliTypes emptyType sumOfVariables)
     = Inr (textOfAssembly
        (''    1.EvaluateStatement:'' @ EOL @ ''    LOAD VARIABLE $x'' @ EOL
         @ ''    LOAD VARIABLE $y'' @ EOL @ ''    INVOKE $sum WITH 2 PARAMETERS'' @ EOL
         @ ''    STORE VARIABLE $$result'' @ EOL @ ''    LOAD VARIABLE $$result'' @ EOL
         @ ''    HANDLE RESULT''))"
  by code_simp

end
